theory Spec2Isabelle
  imports Main
begin

section \<open>Python strings\<close>

text \<open>
  The program is \<^verbatim>\<open>url_processor.py\<close>. Its strings are modelled as \<^typ>\<open>string\<close>, lists of
  characters of the type \<^typ>\<open>char\<close>, which has 256 values: they are read as the code points
  U+0000 to U+00FF of a Python \<^verbatim>\<open>str\<close> (ASCII and the Latin-1 supplement), a character beyond
  ASCII being written \<open>CHR 0xE9\<close>. On this range Python's \<^verbatim>\<open>str.isspace\<close>, \<^verbatim>\<open>str.lower\<close> and the
  classes \<^verbatim>\<open>\s\<close> and \<^verbatim>\<open>\w\<close> of the \<^verbatim>\<open>re\<close> module (on a \<^verbatim>\<open>str\<close> pattern, so in their Unicode sense)
  are the tables below. Code points beyond U+00FF are outside the model.
\<close>

abbreviation LF :: char where "LF \<equiv> CHR 0x0A"
abbreviation CR :: char where "CR \<equiv> CHR 0x0D"

text \<open>
  \<^verbatim>\<open>c.isspace()\<close>, also the class \<^verbatim>\<open>\s\<close>: the ASCII white space, the four separators U+001C to
  U+001F, the next-line control U+0085 and the no-break space U+00A0.
\<close>

definition py_isspace :: "char \<Rightarrow> bool" where
  "py_isspace c \<longleftrightarrow>
     c \<in> set [CHR 0x09, CHR 0x0A, CHR 0x0B, CHR 0x0C, CHR 0x0D,
              CHR 0x1C, CHR 0x1D, CHR 0x1E, CHR 0x1F, CHR 0x20, CHR 0x85, CHR 0xA0]"

definition lstrip :: "string \<Rightarrow> string" where
  "lstrip s = dropWhile py_isspace s"

definition rstrip :: "string \<Rightarrow> string" where
  "rstrip s = rev (dropWhile py_isspace (rev s))"

text \<open>\<^verbatim>\<open>s.strip()\<close>\<close>

definition strip :: "string \<Rightarrow> string" where
  "strip s = rstrip (lstrip s)"

text \<open>\<^verbatim>\<open>s.strip('/')\<close>: the given character is removed from both ends.\<close>

definition strip_char :: "char \<Rightarrow> string \<Rightarrow> string" where
  "strip_char d s = rev (dropWhile (\<lambda>c. c = d) (rev (dropWhile (\<lambda>c. c = d) s)))"

text \<open>
  \<^verbatim>\<open>s.lower()\<close>: the letters A to Z, and the capital letters U+00C0 to U+00DE of Latin-1 (all
  of that range but the multiplication sign U+00D7), which have their small letter 32
  places further on.
\<close>

definition latin1_capital :: "char \<Rightarrow> bool" where
  "latin1_capital c \<longleftrightarrow>
     0xC0 \<le> (of_char c :: nat) \<and> (of_char c :: nat) \<le> 0xDE \<and> c \<noteq> CHR 0xD7"

definition lower_char :: "char \<Rightarrow> char" where
  "lower_char c =
     (case map_of (zip ''ABCDEFGHIJKLMNOPQRSTUVWXYZ'' ''abcdefghijklmnopqrstuvwxyz'') c of
        Some d \<Rightarrow> d
      | None \<Rightarrow> if latin1_capital c then char_of (of_char c + 32 :: nat) else c)"

definition lower :: "string \<Rightarrow> string" where
  "lower s = map lower_char s"

text \<open>
  The class \<^verbatim>\<open>\w\<close> of the \<^verbatim>\<open>re\<close> module on a \<^verbatim>\<open>str\<close>: the underscore and every character that
  Unicode takes for a letter or a number. In ASCII these are the letters and the digits;
  in the Latin-1 supplement the ordinal indicators U+00AA and U+00BA, the superscript
  digits U+00B2, U+00B3 and U+00B9, the micro sign U+00B5, the fractions U+00BC to U+00BE,
  and the letters U+00C0 to U+00FF, which are all of that range but the multiplication
  sign U+00D7 and the division sign U+00F7.
\<close>

definition latin1_word_char :: "char \<Rightarrow> bool" where
  "latin1_word_char c \<longleftrightarrow>
     c \<in> set [CHR 0xAA, CHR 0xB2, CHR 0xB3, CHR 0xB5, CHR 0xB9, CHR 0xBA, CHR 0xBC, CHR 0xBD, CHR 0xBE]
     \<or> (0xC0 \<le> (of_char c :: nat) \<and> c \<noteq> CHR 0xD7 \<and> c \<noteq> CHR 0xF7)"

definition is_word_char :: "char \<Rightarrow> bool" where
  "is_word_char c \<longleftrightarrow>
     c \<in> set (''abcdefghijklmnopqrstuvwxyz'' @ ''ABCDEFGHIJKLMNOPQRSTUVWXYZ'' @ ''0123456789_'')
     \<or> latin1_word_char c"

definition starts_with :: "string \<Rightarrow> string \<Rightarrow> bool" where
  "starts_with p s \<longleftrightarrow> take (length p) s = p"

text \<open>
  \<^verbatim>\<open>s.partition(p)\<close> at the first occurrence of \<open>p\<close>: the text before it and the text after
  it, \<open>None\<close> when \<open>p\<close> does not occur. \<^verbatim>\<open>p in s\<close> is \<open>contains p s\<close>.
\<close>

fun partition_sub :: "string \<Rightarrow> string \<Rightarrow> (string \<times> string) option" where
  "partition_sub p [] = (if p = [] then Some ([], []) else None)"
| "partition_sub p (c # cs) =
     (if starts_with p (c # cs) then Some ([], drop (length p) (c # cs))
      else map_option (\<lambda>(before, after). (c # before, after)) (partition_sub p cs))"

definition contains :: "string \<Rightarrow> string \<Rightarrow> bool" where
  "contains p s \<longleftrightarrow> partition_sub p s \<noteq> None"

text \<open>\<^verbatim>\<open>s.split(d)\<close> for a separator of one character: never an empty list.\<close>

fun split_on :: "char \<Rightarrow> string \<Rightarrow> string list" where
  "split_on d [] = [[]]"
| "split_on d (c # cs) =
     (if c = d then [] # split_on d cs
      else (case split_on d cs of [] \<Rightarrow> [[c]] | item # items \<Rightarrow> (c # item) # items))"

text \<open>
  \<^verbatim>\<open>s.replace(old, new)\<close>: the occurrences of \<open>old\<close> are replaced from left to right, without
  overlap. The program calls it with a non-empty \<open>old\<close> only; for an empty one the model
  returns the string unchanged.
\<close>

fun replace_sub :: "string \<Rightarrow> string \<Rightarrow> string \<Rightarrow> string" where
  "replace_sub old new [] = []"
| "replace_sub old new (c # cs) =
     (if old \<noteq> [] \<and> starts_with old (c # cs)
      then new @ replace_sub old new (drop (length old - 1) cs)
      else c # replace_sub old new cs)"

text \<open>\<^verbatim>\<open>sep.join(items)\<close>\<close>

fun join_with :: "string \<Rightarrow> string list \<Rightarrow> string" where
  "join_with sep [] = []"
| "join_with sep [x] = x"
| "join_with sep (x # y # ys) = x @ sep @ join_with sep (y # ys)"

section \<open>Parsing the enrichment reply\<close>

text \<open>
  The regular expressions of \<open>process_with_gemini\<close>, each written out as the function
  \<^verbatim>\<open>re.search\<close> computes for it. \<open>re_search m s\<close> tries the matcher \<open>m\<close> at every position of
  \<open>s\<close> from the left and returns group 1 of the first match.
\<close>

fun re_search :: "(string \<Rightarrow> 'a option) \<Rightarrow> string \<Rightarrow> 'a option" where
  "re_search m [] = m []"
| "re_search m (c # cs) =
     (case m (c # cs) of Some g \<Rightarrow> Some g | None \<Rightarrow> re_search m cs)"

text \<open>
  \<^verbatim>\<open>re.search(r'## Metadata\n([\s\S]*?)\n\n## Content', result_text)\<close>: the lazy group ends
  at the first \<^verbatim>\<open>\n\n## Content\<close> after the first \<^verbatim>\<open>## Metadata\n\<close>; when none follows the first
  heading, none follows a later one, and there is no match.
\<close>

definition metadata_match :: "string \<Rightarrow> string option" where
  "metadata_match result_text =
     (case partition_sub (''## Metadata'' @ [LF]) result_text of
        None \<Rightarrow> None
      | Some (before, rest) \<Rightarrow>
          (case partition_sub ([LF, LF] @ ''## Content'') rest of
             None \<Rightarrow> None
           | Some (group1, after) \<Rightarrow> Some group1))"

text \<open>\<^verbatim>\<open>re.search(r'## Content\n([\s\S]*)', result_text)\<close>\<close>

definition content_match :: "string \<Rightarrow> string option" where
  "content_match result_text =
     map_option snd (partition_sub (''## Content'' @ [LF]) result_text)"

text \<open>
  The field patterns are searched with \<^verbatim>\<open>re.IGNORECASE | re.DOTALL\<close>. \<open>match_label\<close> is the
  common prefix \<^verbatim>\<open>Label:\s*\<close> at one position: the label in any case, then all the white
  space that follows (what comes next in each pattern is not white space, so giving white
  space back never helps a match).
\<close>

definition match_label :: "string \<Rightarrow> string \<Rightarrow> string option" where
  "match_label label s =
     (if lower (take (length label) s) = lower label
      then Some (dropWhile py_isspace (drop (length label) s))
      else None)"

text \<open>\<^verbatim>\<open>Label:\s*\[([^\]]*)\]\<close>\<close>

definition match_list_field :: "string \<Rightarrow> string \<Rightarrow> string option" where
  "match_list_field label s =
     (case match_label label s of
        None \<Rightarrow> None
      | Some r \<Rightarrow>
          (case r of
             [] \<Rightarrow> None
           | c # r' \<Rightarrow>
               if c = CHR ''['' \<and> CHR '']'' \<in> set r'
               then Some (takeWhile (\<lambda>x. x \<noteq> CHR '']'') r')
               else None))"

text \<open>\<^verbatim>\<open>Label:\s*(a|b|c)\<close>: the first alternative that matches, in any case; group 1 is the
  text as it stands in the reply.\<close>

definition match_choice_field :: "string \<Rightarrow> string list \<Rightarrow> string \<Rightarrow> string option" where
  "match_choice_field label alternatives s =
     (case match_label label s of
        None \<Rightarrow> None
      | Some r \<Rightarrow>
          map_option (\<lambda>a. take (length a) r)
            (List.find (\<lambda>a. lower (take (length a) r) = lower a) alternatives))"

text \<open>
  \<^verbatim>\<open>Summary:\s*(.*?)(?=\n\n|$)\<close>: the lazy group stops at the first position followed by a
  blank line or by the end of the text; \<^verbatim>\<open>$\<close> also matches before a newline that ends the
  text.
\<close>

fun lazy_to_blank_line :: "string \<Rightarrow> string" where
  "lazy_to_blank_line [] = []"
| "lazy_to_blank_line (c # cs) =
     (if starts_with [LF, LF] (c # cs) \<or> c # cs = [LF] then []
      else c # lazy_to_blank_line cs)"

definition match_summary :: "string \<Rightarrow> string option" where
  "match_summary s = map_option lazy_to_blank_line (match_label ''Summary:'' s)"

text \<open>The dictionary \<open>patterns\<close>, in its order.\<close>

definition patterns :: "(string \<times> (string \<Rightarrow> string option)) list" where
  "patterns =
     [(''technologies'', match_list_field ''Technologies:''),
      (''programming_languages'', match_list_field ''Programming_Languages:''),
      (''tags'', match_list_field ''Tags:''),
      (''key_concepts'', match_list_field ''Key_Concepts:''),
      (''code_examples'', match_choice_field ''Code_Examples:'' [''yes'', ''no'']),
      (''difficulty_level'',
         match_choice_field ''Difficulty_Level:'' [''beginner'', ''intermediate'', ''advanced'']),
      (''summary'', match_summary)]"

text \<open>The values of the dictionary \<open>extracted_metadata\<close>: a list, a boolean or a text.\<close>

datatype field_value = List_Value "string list" | Bool_Value bool | Text_Value string

definition list_keys :: "string list" where
  "list_keys = [''technologies'', ''programming_languages'', ''tags'', ''key_concepts'']"

text \<open>
  \<^verbatim>\<open>
  value = match.group(1).strip()
  if key in ['technologies', 'programming_languages', 'tags', 'key_concepts']:
      if value and value.lower() != 'none':
          extracted_metadata[key] = [item.strip() for item in value.split(',') if item.strip()]
      else:
          extracted_metadata[key] = []
  elif key == 'code_examples':
      extracted_metadata[key] = value.lower() == 'yes'
  else:
      extracted_metadata[key] = value
  \<close>
\<close>

definition split_items :: "string \<Rightarrow> string list" where
  "split_items v = map strip (filter (\<lambda>item. strip item \<noteq> []) (split_on CHR '','' v))"

definition field_of_group :: "string \<Rightarrow> string \<Rightarrow> field_value" where
  "field_of_group key group1 =
     (let v = strip group1 in
      if key \<in> set list_keys then
        (if v \<noteq> [] \<and> lower v \<noteq> ''none'' then List_Value (split_items v)
         else List_Value [])
      else if key = ''code_examples'' then Bool_Value (lower v = ''yes'')
      else Text_Value v)"

text \<open>
  \<^verbatim>\<open>
  for key, pattern in patterns.items():
      match = re.search(pattern, metadata_text, re.IGNORECASE | re.DOTALL)
      if match: ...
  \<close>
\<close>

definition extract_fields :: "string \<Rightarrow> (string \<rightharpoonup> field_value)" where
  "extract_fields metadata_text =
     fold (\<lambda>(key, pattern) extracted_metadata.
             case re_search pattern metadata_text of
               None \<Rightarrow> extracted_metadata
             | Some group1 \<Rightarrow> extracted_metadata(key \<mapsto> field_of_group key group1))
          patterns Map.empty"

record gemini_data =
  metadata :: "string \<rightharpoonup> field_value"
  improved_content :: string

text \<open>
  What \<open>process_with_gemini\<close> does with the reply text \<open>result_text\<close> once the service has
  returned it; \<open>markdown_content\<close> is the converted text that was sent (the parameter
  \<open>content\<close> of the source).
\<close>

definition parse_reply :: "string \<Rightarrow> string \<Rightarrow> gemini_data" where
  "parse_reply markdown_content result_text =
     \<lparr>metadata =
        (case metadata_match result_text of
           None \<Rightarrow> Map.empty
         | Some metadata_text \<Rightarrow> extract_fields metadata_text),
      improved_content =
        (case content_match result_text of
           Some group1 \<Rightarrow> group1
         | None \<Rightarrow> markdown_content)\<rparr>"

section \<open>The parsed page\<close>

text \<open>
  \<^verbatim>\<open>BeautifulSoup(html_content, 'html.parser')\<close> is library code: the model takes the tree
  it returns. A node is a tag with its name, its attributes and its children, or a string
  of text. Attribute values are strings; the value of \<^verbatim>\<open>class\<close> is the attribute as written.
\<close>

datatype node = Tag string "(string \<times> string) list" "node list" | NavigableString string

fun descendants :: "node \<Rightarrow> node list" where
  "descendants (NavigableString t) = []"
| "descendants (Tag name attrs children) = concat (map (\<lambda>c. c # descendants c) children)"

text \<open>The nodes below the soup object, in document order.\<close>

definition soup_descendants :: "node list \<Rightarrow> node list" where
  "soup_descendants soup = concat (map (\<lambda>c. c # descendants c) soup)"

text \<open>\<^verbatim>\<open>soup.find(...)\<close>: the first tag in document order that meets the criteria.\<close>

definition find_tag :: "(string \<Rightarrow> (string \<times> string) list \<Rightarrow> bool) \<Rightarrow> node list \<Rightarrow> node option" where
  "find_tag criteria soup =
     List.find (\<lambda>n. case n of Tag name attrs children \<Rightarrow> criteria name attrs
                              | NavigableString t \<Rightarrow> False)
       (soup_descendants soup)"

text \<open>\<^verbatim>\<open>tag.get(key, '')\<close>\<close>

fun get_attr :: "node \<Rightarrow> string \<Rightarrow> string" where
  "get_attr (Tag name attrs children) key = (case map_of attrs key of Some v \<Rightarrow> v | None \<Rightarrow> [])"
| "get_attr (NavigableString t) key = []"

fun strings :: "node \<Rightarrow> string list" where
  "strings (NavigableString t) = [t]"
| "strings (Tag name attrs children) = concat (map strings children)"

text \<open>\<^verbatim>\<open>tag.text\<close> and \<^verbatim>\<open>tag.get_text(strip=True)\<close>\<close>

definition get_text :: "node \<Rightarrow> string" where
  "get_text n = concat (strings n)"

definition get_text_strip :: "node \<Rightarrow> string" where
  "get_text_strip n = concat (filter (\<lambda>t. t \<noteq> []) (map strip (strings n)))"

text \<open>The criteria of the searches.\<close>

definition named :: "string \<Rightarrow> string \<Rightarrow> (string \<times> string) list \<Rightarrow> bool" where
  "named tag_name name attrs \<longleftrightarrow> name = tag_name"

definition with_attr :: "string \<Rightarrow> string \<Rightarrow> string \<Rightarrow> (string \<times> string) list \<Rightarrow> bool" where
  "with_attr key v name attrs \<longleftrightarrow> map_of attrs key = Some v"

definition named_with_attr ::
  "string \<Rightarrow> string \<Rightarrow> string \<Rightarrow> string \<Rightarrow> (string \<times> string) list \<Rightarrow> bool" where
  "named_with_attr tag_name key v name attrs \<longleftrightarrow> name = tag_name \<and> map_of attrs key = Some v"

text \<open>\<^verbatim>\<open>class_=re.compile('author', re.I)\<close>: the class attribute holds \<^verbatim>\<open>author\<close> in any case.\<close>

definition class_matches_author :: "string \<Rightarrow> (string \<times> string) list \<Rightarrow> bool" where
  "class_matches_author name attrs \<longleftrightarrow>
     (case map_of attrs ''class'' of Some v \<Rightarrow> contains ''author'' (lower v) | None \<Rightarrow> False)"

text \<open>\<^verbatim>\<open>soup.find('time', {'datetime': True})\<close>: the attribute is present.\<close>

definition time_with_datetime :: "string \<Rightarrow> (string \<times> string) list \<Rightarrow> bool" where
  "time_with_datetime name attrs \<longleftrightarrow> name = ''time'' \<and> map_of attrs ''datetime'' \<noteq> None"

text \<open>\<^verbatim>\<open>a or b\<close> on the results of \<open>find\<close>: a tag is true, \<open>None\<close> is false.\<close>

definition or_else :: "'a option \<Rightarrow> 'a option \<Rightarrow> 'a option" where
  "or_else a b = (case a of Some x \<Rightarrow> Some x | None \<Rightarrow> b)"

text \<open>The result of \<^verbatim>\<open>urlparse(url)\<close>, with the components the program reads.\<close>

record parse_result =
  netloc :: string
  path :: string
  query :: string

record page_metadata =
  title :: string
  author :: string
  publication_date :: "string option"
  domain :: string
  content :: "node option"

text \<open>
  \<^verbatim>\<open>
  author = None
  author_meta = soup.find('meta', {'name': 'author'}) or \
               soup.find('meta', {'property': 'article:author'})
  if author_meta:
      author = author_meta.get('content', '')
  if not author:
      author_elem = soup.find(class_=re.compile('author', re.I)) or \
                   soup.find(attrs={'itemprop': 'author'})
      if author_elem:
          author = author_elem.get_text(strip=True)
  \<close>
  The value of \<open>author\<close> after these lines; \<open>None\<close> and the empty string are both false for
  \<^verbatim>\<open>author or 'Unknown'\<close>.
\<close>

definition truthy :: "string option \<Rightarrow> bool" where
  "truthy v \<longleftrightarrow> (case v of Some s \<Rightarrow> s \<noteq> [] | None \<Rightarrow> False)"

text \<open>\<^verbatim>\<open>v or d\<close> for a text \<open>v\<close> that may be \<open>None\<close>.\<close>

definition or_default :: "string option \<Rightarrow> string \<Rightarrow> string" where
  "or_default v d = (case v of Some s \<Rightarrow> (if s \<noteq> [] then s else d) | None \<Rightarrow> d)"

definition extract_author :: "node list \<Rightarrow> string option" where
  "extract_author soup =
     (let author_meta = or_else (find_tag (named_with_attr ''meta'' ''name'' ''author'') soup)
                                (find_tag (named_with_attr ''meta'' ''property'' ''article:author'') soup);
          author = map_option (\<lambda>m. get_attr m ''content'') author_meta
      in if \<not> truthy author then
           (let author_elem = or_else (find_tag class_matches_author soup)
                                      (find_tag (with_attr ''itemprop'' ''author'') soup)
            in case author_elem of
                 Some e \<Rightarrow> Some (get_text_strip e)
               | None \<Rightarrow> author)
         else author)"

definition extract_pub_date :: "node list \<Rightarrow> string option" where
  "extract_pub_date soup =
     (let date_meta =
            or_else (find_tag (named_with_attr ''meta'' ''property'' ''article:published_time'') soup)
              (or_else (find_tag (named_with_attr ''meta'' ''name'' ''publish_date'') soup)
                       (find_tag (named_with_attr ''meta'' ''property'' ''og:published_time'') soup));
          pub_date = map_option (\<lambda>m. get_attr m ''content'') date_meta
      in if \<not> truthy pub_date then
           (case find_tag time_with_datetime soup of
              Some time_elem \<Rightarrow> Some (get_attr time_elem ''datetime'')
            | None \<Rightarrow> pub_date)
         else pub_date)"

section \<open>The world outside the program\<close>

text \<open>
  An exception is modelled by its message, \<^verbatim>\<open>str(e)\<close>: the only thing the program reads of
  it. A raise is the left summand of a result. The exceptions modelled are those of class
  \<^verbatim>\<open>Exception\<close>, which the handlers of the program catch; an interrupt of the process is
  outside the model.
\<close>

datatype exn = Exception string

fun message :: "exn \<Rightarrow> string" where
  "message (Exception m) = m"

text \<open>The response of \<^verbatim>\<open>session.get\<close>: its status and what \<^verbatim>\<open>await response.text()\<close> gives.\<close>

record http_response =
  status :: nat
  text_result :: "exn + string"

text \<open>
  The library calls and the services the program depends on are parameters of the model.
  The network, the enrichment service and the file system keep a state of their own (a
  quota that runs out, a page that goes away, a disk that fills up), so two calls with the
  same arguments may end differently. Their outcome is given per call of the run:
  \<^item> \<open>http_get n url timeout\<close>: the outcome of \<^verbatim>\<open>session.get(url, timeout=30)\<close> when it is
    call number \<open>n\<close> of \<^verbatim>\<open>session.get\<close> in the run (\<open>n\<close> requests went before), a response or an
    exception (a network error, a timeout);
  \<^item> \<open>generate_content n prompt\<close>: the outcome of
    \<^verbatim>\<open>self.model.generate_content(prompt, ...).text\<close> when it is call number \<open>n\<close> of the service
    in the run, the reply text or the exception the call raises;
  \<^item> \<open>open_output n path\<close>: the exception \<^verbatim>\<open>open(output_path, 'w')\<close> raises, if any, when it
    is call number \<open>n\<close> of it in the run;
  \<^item> \<open>strftime_now n\<close> and \<open>isoformat_now n\<close>: the reading of call number \<open>n\<close> of
    \<^verbatim>\<open>datetime.now()\<close> in the run, as \<^verbatim>\<open>strftime('%Y%m%d_%H%M%S')\<close> and as \<^verbatim>\<open>isoformat()\<close>.
  Calls are numbered from 0. The functions of the libraries are functions of their
  arguments:
  \<^item> \<open>parse_html\<close>: \<^verbatim>\<open>BeautifulSoup(html_content, 'html.parser')\<close>;
  \<^item> \<open>urlparse\<close>: \<^verbatim>\<open>urllib.parse.urlparse\<close>;
  \<^item> \<open>to_markdown\<close>: \<^verbatim>\<open>self.html_converter.handle(str(main_content))\<close>.
  The parser, the converter and the writes to the backlog and the ledger are taken to
  return.
\<close>

record env =
  http_get :: "nat \<Rightarrow> string \<Rightarrow> nat \<Rightarrow> exn + http_response"
  parse_html :: "string \<Rightarrow> node list"
  urlparse :: "string \<Rightarrow> parse_result"
  to_markdown :: "node option \<Rightarrow> string"
  generate_content :: "nat \<Rightarrow> string \<Rightarrow> exn + string"
  strftime_now :: "nat \<Rightarrow> string"
  isoformat_now :: "nat \<Rightarrow> string"
  open_output :: "nat \<Rightarrow> string \<Rightarrow> exn option"

text \<open>The configuration \<open>URLProcessor.__init__\<close> reads from the environment.\<close>

record config =
  delay_between_requests :: int
  max_retries :: int
  output_dir :: string

text \<open>
  An output document, by the values \<open>create_markdown_file\<close> puts into its header and body
  (the rendering of the header as text is not modelled).
\<close>

record document =
  doc_title :: string
  doc_source :: string
  doc_date_published :: string
  doc_date_captured :: string
  doc_domain :: string
  doc_author :: string
  doc_technologies :: "field_value"
  doc_programming_languages :: "field_value"
  doc_tags :: "field_value"
  doc_key_concepts :: "field_value"
  doc_code_examples :: "field_value"
  doc_difficulty_level :: "field_value"
  doc_summary :: "field_value"
  doc_content :: string

text \<open>
  The state of a run:
  \<^item> \<open>source_file\<close>: the text of the backlog file, \<open>None\<close> when the file does not exist;
  \<^item> \<open>processed_file\<close>: the ledger, one entry (timestamp, URL, output path) per line
    written by \<open>add_to_processed_file\<close>;
  \<^item> \<open>documents\<close>: the files written under the output directory, by path;
  \<^item> \<open>now_calls\<close>: how many times \<^verbatim>\<open>datetime.now()\<close> has been called;
  \<^item> \<open>requests\<close>: the GET requests issued, each with its timeout;
  \<^item> \<open>prompts\<close>: the prompts sent to the enrichment service;
  \<^item> \<open>opens\<close>: the paths \<^verbatim>\<open>open(output_path, 'w')\<close> has been called with.
\<close>

record state =
  source_file :: "string option"
  processed_file :: "(string \<times> string \<times> string) list"
  documents :: "string \<rightharpoonup> document"
  now_calls :: nat
  requests :: "(string \<times> nat) list"
  prompts :: "string list"
  opens :: "string list"

section \<open>Fetching and extracting\<close>

text \<open>
  The request is call number \<open>length (requests s)\<close> of \<^verbatim>\<open>session.get\<close>.
  \<^verbatim>\<open>
  async def fetch_url_content(self, session, url):
      try:
          async with session.get(url, timeout=30) as response:
              if response.status == 200:
                  return await response.text()
              else:
                  return None
      except Exception as e:
          return None
  \<close>
\<close>

definition fetch_url_content :: "config \<Rightarrow> env \<Rightarrow> state \<Rightarrow> string \<Rightarrow> string option \<times> state" where
  "fetch_url_content self world s url =
     (let s' = s\<lparr>requests := requests s @ [(url, 30)]\<rparr> in
      case http_get world (length (requests s)) url 30 of
        Inl e \<Rightarrow> (None, s')
      | Inr response \<Rightarrow>
          if status response = 200 then
            (case text_result response of
               Inr t \<Rightarrow> (Some t, s')
             | Inl e \<Rightarrow> (None, s'))
          else (None, s'))"

text \<open>
  \<^verbatim>\<open>
  def extract_metadata_from_html(self, html_content, url):
      soup = BeautifulSoup(html_content, 'html.parser')
      title = soup.find('title')
      title = title.text.strip() if title else urlparse(url).netloc
      ...
      main_content = soup.find('main') or soup.find('article') or \
                    soup.find(attrs={'role': 'main'}) or soup.body
      return {'title': title, 'author': author or 'Unknown', 'publication_date': pub_date,
              'domain': urlparse(url).netloc, 'content': main_content}
  \<close>
\<close>

definition extract_metadata_from_html :: "env \<Rightarrow> string \<Rightarrow> string \<Rightarrow> page_metadata" where
  "extract_metadata_from_html world html_content url =
     (let soup = parse_html world html_content in
      \<lparr>title = (case find_tag (named ''title'') soup of
                  Some t \<Rightarrow> strip (get_text t)
                | None \<Rightarrow> netloc (urlparse world url)),
       author = or_default (extract_author soup) ''Unknown'',
       publication_date = extract_pub_date soup,
       domain = netloc (urlparse world url),
       content = or_else (find_tag (named ''main'') soup)
                   (or_else (find_tag (named ''article'') soup)
                      (or_else (find_tag (with_attr ''role'' ''main'') soup)
                               (find_tag (named ''body'') soup)))\<rparr>)"

section \<open>The enrichment call\<close>

text \<open>The prompt: the fixed template, then the URL and the converted text.\<close>

definition prompt_template :: "string list" where
  "prompt_template =
     [''You are a technical content analyzer. Analyze the provided content and extract metadata.'',
      [],
      ''CRITICAL: You MUST format your response EXACTLY as shown below. Do not deviate from this format.'',
      [],
      ''## Metadata'',
      ''Technologies: [LIST HERE - e.g., ASP.NET Core, Dapper, Entity Framework, SQL Server, PostgreSQL]'',
      ''Programming_Languages: [LIST HERE - e.g., C#, SQL, JavaScript]'',
      ''Tags: [LIST HERE - e.g., orm, database, dotnet, web-api, data-access]'',
      ''Key_Concepts: [LIST HERE - e.g., micro-orm, repository-pattern, dependency-injection]'',
      ''Code_Examples: [yes or no]'',
      ''Difficulty_Level: [beginner or intermediate or advanced]'',
      ''Summary: [Write 4-6 sentences here]'',
      [],
      ''## Content'',
      ''[Put the improved markdown content here]'',
      [],
      ''IMPORTANT RULES:'',
      ''1. For Technologies: List ALL technologies, frameworks, libraries, tools mentioned'',
      ''2. For Programming_Languages: List ONLY programming languages, NOT frameworks'',
      ''3. For Tags: Use lowercase, hyphenated terms for categorization (max 10)'',
      ''4. For Key_Concepts: List main technical concepts, patterns, or methodologies (max 8)'',
      ''5. Never leave any field empty - if nothing found, write '' @ [CHR 0x22] @ ''none'' @ [CHR 0x22],
      ''6. Keep the original content structure but improve formatting and clarity'',
      []]"

definition prompt_of :: "string \<Rightarrow> string \<Rightarrow> string" where
  "prompt_of url markdown_content =
     concat (map (\<lambda>line. line @ [LF]) prompt_template)
     @ ''Now analyze this content from '' @ url @ '':'' @ [LF, LF] @ markdown_content"

text \<open>
  \<^verbatim>\<open>
  async def process_with_gemini(self, content, metadata, url):
      prompt = ...
      try:
          response = self.model.generate_content(prompt, generation_config=...)
          result_text = response.text
          ...
          return {'metadata': extracted_metadata, 'content': improved_content}
      except Exception as e:
          logger.error(f"Gemini API error for {url}: {str(e)}")
          raise
  \<close>
  The exception is raised again as it came. The call is call number \<open>length (prompts s)\<close>
  of the service.
\<close>

definition process_with_gemini ::
  "env \<Rightarrow> state \<Rightarrow> string \<Rightarrow> page_metadata \<Rightarrow> string \<Rightarrow> (exn + gemini_data) \<times> state" where
  "process_with_gemini world s markdown_content page url =
     (let prompt = prompt_of url markdown_content;
          s' = s\<lparr>prompts := prompts s @ [prompt]\<rparr>
      in case generate_content world (length (prompts s)) prompt of
           Inl e \<Rightarrow> (Inl e, s')
         | Inr result_text \<Rightarrow> (Inr (parse_reply markdown_content result_text), s'))"

section \<open>Writing the document\<close>

text \<open>
  \<^verbatim>\<open>
  parsed = urlparse(url)
  domain = parsed.netloc.replace('www.', '')
  path = parsed.path.strip('/').replace('/', '_')
  if path:
      filename = f"{domain}_{path[:100]}.md"
  else:
      filename = f"{domain}_{datetime.now().strftime('%Y%m%d_%H%M%S')}.md"
  filename = re.sub(r'[^\w\-_\.]', '_', filename)
  \<close>
  \<open>timestamp\<close> is the reading of the clock, used when the path is empty.
\<close>

definition filename_domain :: "parse_result \<Rightarrow> string" where
  "filename_domain parsed = replace_sub ''www.'' [] (netloc parsed)"

definition filename_path :: "parse_result \<Rightarrow> string" where
  "filename_path parsed =
     map (\<lambda>c. if c = CHR ''/'' then CHR ''_'' else c) (strip_char CHR ''/'' (path parsed))"

definition safe_char :: "char \<Rightarrow> bool" where
  "safe_char c \<longleftrightarrow> is_word_char c \<or> c \<in> set ''-_.''"

definition sanitize :: "string \<Rightarrow> string" where
  "sanitize filename = map (\<lambda>c. if safe_char c then c else CHR ''_'') filename"

definition derive_filename :: "parse_result \<Rightarrow> string \<Rightarrow> string" where
  "derive_filename parsed timestamp =
     (let domain = filename_domain parsed;
          path = filename_path parsed;
          filename = (if path \<noteq> [] then domain @ ''_'' @ take 100 path @ ''.md''
                      else domain @ ''_'' @ timestamp @ ''.md'')
      in sanitize filename)"

text \<open>\<^verbatim>\<open>d.get(key, default)\<close> on the dictionary of the reply's fields.\<close>

definition get_or :: "(string \<rightharpoonup> field_value) \<Rightarrow> string \<Rightarrow> field_value \<Rightarrow> field_value" where
  "get_or d key dflt = (case d key of Some v \<Rightarrow> v | None \<Rightarrow> dflt)"

fun map_text :: "(string \<Rightarrow> string) \<Rightarrow> field_value \<Rightarrow> field_value" where
  "map_text f (Text_Value t) = Text_Value (f t)"
| "map_text f v = v"

text \<open>
  \<open>create_markdown_file\<close>: the file name, the document, and the write
  \<^verbatim>\<open>with open(output_path, 'w', encoding='utf-8') as f: f.write(yaml_content)\<close>, which
  replaces a file of the same path. The output path \<^verbatim>\<open>self.output_dir / filename\<close> is the
  output directory, a slash and the file name. \<^verbatim>\<open>datetime.now()\<close> is called for the file name
  when the path is empty, and once for \<^verbatim>\<open>date_captured\<close>. The call of \<^verbatim>\<open>open\<close> is call number
  \<open>length (opens s)\<close> of it; when it raises, nothing is written.
\<close>

definition create_markdown_file ::
  "config \<Rightarrow> env \<Rightarrow> state \<Rightarrow> string \<Rightarrow> page_metadata \<Rightarrow> gemini_data \<Rightarrow> (exn + string) \<times> state" where
  "create_markdown_file self world s url page gemini =
     (let parsed = urlparse world url;
          filename = derive_filename parsed (strftime_now world (now_calls s));
          n = (if filename_path parsed \<noteq> [] then now_calls s else now_calls s + 1);
          doc = \<lparr>doc_title = title page,
                 doc_source = url,
                 doc_date_published = or_default (publication_date page) ''unknown'',
                 doc_date_captured = isoformat_now world n,
                 doc_domain = domain page,
                 doc_author = author page,
                 doc_technologies = get_or (metadata gemini) ''technologies'' (List_Value []),
                 doc_programming_languages =
                   get_or (metadata gemini) ''programming_languages'' (List_Value []),
                 doc_tags = get_or (metadata gemini) ''tags'' (List_Value []),
                 doc_key_concepts = get_or (metadata gemini) ''key_concepts'' (List_Value []),
                 doc_code_examples = get_or (metadata gemini) ''code_examples'' (Bool_Value False),
                 doc_difficulty_level =
                   get_or (metadata gemini) ''difficulty_level'' (Text_Value ''unknown''),
                 doc_summary =
                   map_text (replace_sub [LF] ([LF] @ ''  ''))
                     (get_or (metadata gemini) ''summary'' (Text_Value ''No summary available'')),
                 doc_content = improved_content gemini\<rparr>;
          output_path = output_dir self @ ''/'' @ filename;
          s' = s\<lparr>now_calls := n + 1, opens := opens s @ [output_path]\<rparr>
      in case open_output world (length (opens s)) output_path of
           Some e \<Rightarrow> (Inl e, s')
         | None \<Rightarrow> (Inr output_path, s'\<lparr>documents := (documents s')(output_path \<mapsto> doc)\<rparr>))"

section \<open>The backlog and the ledger\<close>

text \<open>
  \<^verbatim>\<open>open(self.source_file, 'r')\<close> reads in text mode with universal newlines: \<^verbatim>\<open>\r\n\<close> and a
  lone \<^verbatim>\<open>\r\<close> arrive as \<^verbatim>\<open>\n\<close>. Iterating over the file yields the lines, each with its
  terminating \<^verbatim>\<open>\n\<close> (the last line may lack it).
\<close>

fun translate_newlines :: "string \<Rightarrow> string" where
  "translate_newlines [] = []"
| "translate_newlines [c] = (if c = CR then [LF] else [c])"
| "translate_newlines (c # d # cs) =
     (if c = CR then (if d = LF then LF # translate_newlines cs
                      else LF # translate_newlines (d # cs))
      else c # translate_newlines (d # cs))"

fun split_lines :: "string \<Rightarrow> string list" where
  "split_lines [] = []"
| "split_lines (c # cs) =
     (if c = LF then [LF] # split_lines cs
      else (case split_lines cs of [] \<Rightarrow> [[c]] | l # ls \<Rightarrow> (c # l) # ls))"

definition file_lines :: "string \<Rightarrow> string list" where
  "file_lines contents = split_lines (translate_newlines contents)"

text \<open>
  \<^verbatim>\<open>
  def read_urls_from_file(self):
      if not self.source_file.exists():
          return []
      with open(self.source_file, 'r', encoding='utf-8') as f:
          urls = [line.strip() for line in f if line.strip()]
      return urls
  \<close>
\<close>

definition read_urls_from_file :: "state \<Rightarrow> string list" where
  "read_urls_from_file s =
     (case source_file s of
        None \<Rightarrow> []
      | Some contents \<Rightarrow> map strip (filter (\<lambda>line. strip line \<noteq> []) (file_lines contents)))"

text \<open>
  \<^verbatim>\<open>
  def remove_processed_url(self, url):
      urls = self.read_urls_from_file()
      remaining_urls = [u for u in urls if u != url]
      with open(self.source_file, 'w', encoding='utf-8') as f:
          for u in remaining_urls:
              f.write(f"{u}\n")
  \<close>
\<close>

definition write_urls :: "string list \<Rightarrow> string" where
  "write_urls us = concat (map (\<lambda>u. u @ [LF]) us)"

definition remove_processed_url :: "state \<Rightarrow> string \<Rightarrow> state" where
  "remove_processed_url s url =
     (let urls = read_urls_from_file s;
          remaining_urls = filter (\<lambda>u. u \<noteq> url) urls
      in s\<lparr>source_file := Some (write_urls remaining_urls)\<rparr>)"

text \<open>
  \<^verbatim>\<open>
  def add_to_processed_file(self, url, output_path):
      with open(self.processed_file, 'a', encoding='utf-8') as f:
          f.write(f"{datetime.now().isoformat()}\t{url}\t{output_path}\n")
  \<close>
\<close>

definition add_to_processed_file :: "env \<Rightarrow> state \<Rightarrow> string \<Rightarrow> string \<Rightarrow> state" where
  "add_to_processed_file world s url output_path =
     s\<lparr>processed_file := processed_file s @ [(isoformat_now world (now_calls s), url, output_path)],
       now_calls := now_calls s + 1\<rparr>"

section \<open>Processing one URL, and the run\<close>

text \<open>\<^verbatim>\<open>"gemini" in str(e).lower()\<close>\<close>

definition mentions_gemini :: "exn \<Rightarrow> bool" where
  "mentions_gemini e \<longleftrightarrow> contains ''gemini'' (lower (message e))"

text \<open>
  The handler of \<open>process_url\<close>:
  \<^verbatim>\<open>
  except Exception as e:
      logger.error(f"Error processing {url}: {str(e)}")
      if "gemini" in str(e).lower():
          logger.error("Gemini API error detected. Stopping processing.")
          raise
      return False
  \<close>
\<close>

definition handle_exception :: "exn \<Rightarrow> state \<Rightarrow> (exn + bool) \<times> state" where
  "handle_exception e s = (if mentions_gemini e then (Inl e, s) else (Inr False, s))"

text \<open>
  \<open>process_url\<close>: \<open>Inr True\<close> and \<open>Inr False\<close> are its two returns, \<open>Inl e\<close> is the exception
  it raises. \<^verbatim>\<open>if not html_content\<close> holds for \<open>None\<close> and for the empty text.
\<close>

definition process_url :: "config \<Rightarrow> env \<Rightarrow> state \<Rightarrow> string \<Rightarrow> (exn + bool) \<times> state" where
  "process_url self world s url =
     (case fetch_url_content self world s url of
        (None, s1) \<Rightarrow> (Inr False, s1)
      | (Some html_content, s1) \<Rightarrow>
          if html_content = [] then (Inr False, s1)
          else
            (let page = extract_metadata_from_html world html_content url;
                 markdown_content = to_markdown world (content page)
             in case process_with_gemini world s1 markdown_content page url of
                  (Inl e, s2) \<Rightarrow> handle_exception e s2
                | (Inr gemini, s2) \<Rightarrow>
                    (case create_markdown_file self world s2 url page gemini of
                       (Inl e, s3) \<Rightarrow> handle_exception e s3
                     | (Inr output_path, s3) \<Rightarrow>
                         (let s4 = remove_processed_url s3 url;
                              s5 = add_to_processed_file world s4 url output_path
                          in (Inr True, s5)))))"

text \<open>
  The loop of \<open>run\<close> over the URLs read at the start:
  \<^verbatim>\<open>
  for i, url in enumerate(urls, 1):
      try:
          success = await self.process_url(session, url)
          ...
          if i < len(urls):
              await asyncio.sleep(self.delay_between_requests)
      except Exception as e:
          if "gemini" in str(e).lower():
              break
          continue
  \<close>
  The pause between two URLs changes nothing of the state and is left out.
\<close>

fun run_loop :: "config \<Rightarrow> env \<Rightarrow> string list \<Rightarrow> state \<Rightarrow> state" where
  "run_loop self world [] s = s"
| "run_loop self world (url # urls) s =
     (case process_url self world s url of
        (Inr success, s') \<Rightarrow> run_loop self world urls s'
      | (Inl e, s') \<Rightarrow> if mentions_gemini e then s' else run_loop self world urls s')"

definition run :: "config \<Rightarrow> env \<Rightarrow> state \<Rightarrow> state" where
  "run self world s =
     (let urls = read_urls_from_file s in
      if urls = [] then s else run_loop self world urls s)"

text \<open>The prompt \<open>process_url\<close> sends for a URL whose page has the text \<open>html_content\<close>.\<close>

definition prompt_for :: "env \<Rightarrow> string \<Rightarrow> string \<Rightarrow> string" where
  "prompt_for world url html_content =
     prompt_of url (to_markdown world (content (extract_metadata_from_html world html_content url)))"

section \<open>An example world\<close>

text \<open>
  A world for the concrete runs below. Every page is served with status 200 and has the
  URL itself as its text, but for one URL that is refused and one that is missing; the
  parser wraps the text into a body, the converter returns the text of the region; the
  service fails with the message \<open>failure\<close> at the calls whose numbers are listed in
  \<open>failing_calls\<close> and answers every other call with \<open>example_reply\<close>, whatever the prompt;
  the clock stands still; every output file can be opened, unless the output directory is
  \<open>read_only\<close>: then opening one fails with the message of a \<^verbatim>\<open>PermissionError\<close>, which names
  the path. URLs of the plain form \<^verbatim>\<open>scheme://host/path?query\<close> are split as \<^verbatim>\<open>urlparse\<close> splits
  them.
\<close>

definition example_reply :: string where
  "example_reply =
     ''## Metadata'' @ [LF] @ ''Technologies: [React, Node.js]'' @ [LF] @ ''Tags: [none]''
     @ [LF, LF] @ ''## Content'' @ [LF] @ ''Text''"

definition example_urlparse :: "string \<Rightarrow> parse_result" where
  "example_urlparse url =
     (case partition_sub ''://'' url of
        None \<Rightarrow> \<lparr>netloc = [], path = url, query = []\<rparr>
      | Some (scheme, rest) \<Rightarrow>
          (let location = takeWhile (\<lambda>c. c \<noteq> CHR ''?'') rest in
           \<lparr>netloc = takeWhile (\<lambda>c. c \<noteq> CHR ''/'') location,
            path = dropWhile (\<lambda>c. c \<noteq> CHR ''/'') location,
            query = drop 1 (dropWhile (\<lambda>c. c \<noteq> CHR ''?'') rest)\<rparr>))"

definition example_world :: "nat list \<Rightarrow> string \<Rightarrow> bool \<Rightarrow> env" where
  "example_world failing_calls failure read_only =
     \<lparr>http_get = (\<lambda>n url timeout.
        if url = ''https://example.com/refused'' then Inl (Exception ''Connection refused'')
        else if url = ''https://example.com/missing''
          then Inr \<lparr>status = 404, text_result = Inr ''Not Found''\<rparr>
        else Inr \<lparr>status = 200, text_result = Inr url\<rparr>),
      parse_html = (\<lambda>html_content. [Tag ''body'' [] [NavigableString html_content]]),
      urlparse = example_urlparse,
      to_markdown = (\<lambda>region. case region of Some n \<Rightarrow> get_text n | None \<Rightarrow> ''None''),
      generate_content = (\<lambda>n prompt.
        if n \<in> set failing_calls then Inl (Exception failure) else Inr example_reply),
      strftime_now = (\<lambda>n. ''20260101_000000''),
      isoformat_now = (\<lambda>n. ''2026-01-01T00:00:00''),
      open_output = (\<lambda>n output_path.
        if read_only
        then Some (Exception (''[Errno 13] Permission denied: '' @ [CHR 0x27] @ output_path @ [CHR 0x27]))
        else None)\<rparr>"

definition example_config :: config where
  "example_config = \<lparr>delay_between_requests = 5, max_retries = 3, output_dir = ''processed_documents''\<rparr>"

text \<open>The state at the start of a run with the given backlog, no document and an empty ledger.\<close>

definition start_state :: "string \<Rightarrow> state" where
  "start_state backlog =
     \<lparr>source_file = Some backlog, processed_file = [], documents = Map.empty,
      now_calls = 0, requests = [], prompts = [], opens = []\<rparr>"

text \<open>A reply whose only field, with the given label, lists \<open>n\<close> items.\<close>

definition reply_with_items :: "string \<Rightarrow> nat \<Rightarrow> string" where
  "reply_with_items label n =
     ''## Metadata'' @ [LF] @ label @ '' ['' @ concat (replicate n ''a,'') @ '']''
     @ [LF, LF] @ ''## Content''"

section \<open>The file name in the words of the specification\<close>

text \<open>
  For comparison with \<open>derive_filename\<close>, the file name as section 4.5 of the specification
  words it: the domain without a leading \<^verbatim>\<open>www.\<close>, an underscore, the first 100 characters of
  the URL path with slashes replaced by underscores, and \<^verbatim>\<open>.md\<close>; with the timestamp in place
  of the path when the path is empty; then every character outside the safe set replaced
  by an underscore.
\<close>

definition spec_domain :: "string \<Rightarrow> string" where
  "spec_domain host = (if starts_with ''www.'' host then drop 4 host else host)"

definition spec_filename :: "parse_result \<Rightarrow> string \<Rightarrow> string" where
  "spec_filename parsed timestamp =
     sanitize
       (if path parsed \<noteq> []
        then spec_domain (netloc parsed) @ ''_''
             @ take 100 (map (\<lambda>c. if c = CHR ''/'' then CHR ''_'' else c) (path parsed)) @ ''.md''
        else spec_domain (netloc parsed) @ ''_'' @ timestamp @ ''.md'')"

section \<open>The author in the words of the specification\<close>

text \<open>
  For comparison with \<open>extract_author\<close>, the author as section 4.2 of the specification
  words it: the first match among the meta tag named \<^verbatim>\<open>author\<close>, the meta tag with the property
  \<^verbatim>\<open>article:author\<close>, the element whose class holds \<^verbatim>\<open>author\<close>, and the element with the
  itemprop \<^verbatim>\<open>author\<close>; \<^verbatim>\<open>Unknown\<close> when none matches. \<open>spec_author\<close> takes the first of the
  four that is present, \<open>spec_author_nonempty\<close> the first that is present with a value that
  is not empty.
\<close>

definition author_candidates :: "node list \<Rightarrow> string option list" where
  "author_candidates soup =
     [map_option (\<lambda>m. get_attr m ''content'') (find_tag (named_with_attr ''meta'' ''name'' ''author'') soup),
      map_option (\<lambda>m. get_attr m ''content'')
        (find_tag (named_with_attr ''meta'' ''property'' ''article:author'') soup),
      map_option get_text_strip (find_tag class_matches_author soup),
      map_option get_text_strip (find_tag (with_attr ''itemprop'' ''author'') soup)]"

definition spec_author :: "node list \<Rightarrow> string" where
  "spec_author soup =
     (case List.find (\<lambda>c. c \<noteq> None) (author_candidates soup) of
        Some (Some a) \<Rightarrow> a
      | _ \<Rightarrow> ''Unknown'')"

definition spec_author_nonempty :: "node list \<Rightarrow> string" where
  "spec_author_nonempty soup =
     (case List.find truthy (author_candidates soup) of
        Some (Some a) \<Rightarrow> a
      | _ \<Rightarrow> ''Unknown'')"

text \<open>A page with an empty author meta tag before an \<^verbatim>\<open>article:author\<close> meta tag.\<close>

definition empty_author_soup :: "node list" where
  "empty_author_soup =
     [Tag ''html'' []
        [Tag ''head'' []
           [Tag ''title'' [] [NavigableString ''A post''],
            Tag ''meta'' [(''name'', ''author''), (''content'', [])] [],
            Tag ''meta'' [(''property'', ''article:author''), (''content'', ''Bob'')] []],
         Tag ''body'' [] [Tag ''article'' [] [NavigableString ''Text'']]]]"

text \<open>A page with a title, an \<^verbatim>\<open>article:author\<close> meta tag, a byline and an article.\<close>

definition article_soup :: "node list" where
  "article_soup =
     [Tag ''html'' []
        [Tag ''head'' []
           [Tag ''title'' [] [NavigableString '' A post ''],
            Tag ''meta'' [(''property'', ''article:author''), (''content'', ''Bob'')] []],
         Tag ''body'' []
           [Tag ''div'' [(''class'', ''post-Author big'')]
              [NavigableString '' Al '', Tag ''b'' [] [NavigableString ''ice '']],
            Tag ''article'' [] [NavigableString ''Text'']]]]"

section \<open>Facts about stripping and lines\<close>

lemmas strip_eval = strip_def lstrip_def rstrip_def py_isspace_def

lemma py_isspace_LF: "py_isspace LF"
  by (simp add: py_isspace_def)

lemma py_isspace_CR: "py_isspace CR"
  by (simp add: py_isspace_def)

lemma set_lstrip: "set (lstrip s) \<subseteq> set s"
  by (auto simp: lstrip_def dest: set_dropWhileD)

lemma set_rstrip: "set (rstrip s) \<subseteq> set s"
proof
  fix c assume "c \<in> set (rstrip s)"
  then have "c \<in> set (dropWhile py_isspace (rev s))"
    by (simp add: rstrip_def)
  then have "c \<in> set (rev s)" by (rule set_dropWhileD)
  then show "c \<in> set s" by simp
qed

lemma set_strip: "set (strip s) \<subseteq> set s"
  unfolding strip_def using set_rstrip set_lstrip by blast

lemma rstrip_snoc_space: "py_isspace c \<Longrightarrow> rstrip (s @ [c]) = rstrip s"
  by (simp add: rstrip_def)

lemma rstrip_Nil: "rstrip [] = []"
  by (simp add: rstrip_def)

lemma lstrip_snoc_space:
  "py_isspace c \<Longrightarrow> rstrip (lstrip (s @ [c])) = rstrip (lstrip s)"
proof (cases "\<forall>x\<in>set s. py_isspace x")
  case True
  assume c: "py_isspace c"
  from True c have "lstrip (s @ [c]) = []" by (simp add: lstrip_def)
  moreover from True have "lstrip s = []" by (simp add: lstrip_def)
  ultimately show ?thesis by simp
next
  case False
  assume c: "py_isspace c"
  from False have "lstrip (s @ [c]) = lstrip s @ [c]"
    by (auto simp: lstrip_def dropWhile_append1)
  with c show ?thesis by (simp add: rstrip_snoc_space)
qed

lemma strip_snoc_space: "py_isspace c \<Longrightarrow> strip (s @ [c]) = strip s"
  by (simp add: strip_def lstrip_snoc_space)

lemma lstrip_id: "s \<noteq> [] \<Longrightarrow> \<not> py_isspace (hd s) \<Longrightarrow> lstrip s = s"
  by (cases s) (simp_all add: lstrip_def)

lemma rstrip_id: "s \<noteq> [] \<Longrightarrow> \<not> py_isspace (last s) \<Longrightarrow> rstrip s = s"
  by (cases s rule: rev_cases) (simp_all add: rstrip_def)

lemma hd_lstrip: "lstrip s \<noteq> [] \<Longrightarrow> \<not> py_isspace (hd (lstrip s))"
  unfolding lstrip_def by (rule hd_dropWhile)

lemma last_rstrip: "rstrip s \<noteq> [] \<Longrightarrow> \<not> py_isspace (last (rstrip s))"
proof -
  assume ne: "rstrip s \<noteq> []"
  then have d: "dropWhile py_isspace (rev s) \<noteq> []" by (simp add: rstrip_def)
  then have "\<not> py_isspace (hd (dropWhile py_isspace (rev s)))" by (rule hd_dropWhile)
  with d show ?thesis by (simp add: rstrip_def last_rev)
qed

lemma hd_rstrip: "rstrip s \<noteq> [] \<Longrightarrow> \<not> py_isspace (hd s) \<Longrightarrow> \<not> py_isspace (hd (rstrip s))"
proof -
  assume ne: "rstrip s \<noteq> []" and h: "\<not> py_isspace (hd s)"
  have "rev s = takeWhile py_isspace (rev s) @ dropWhile py_isspace (rev s)" by simp
  then have "rev (rev s) = rev (takeWhile py_isspace (rev s) @ dropWhile py_isspace (rev s))"
    by (rule arg_cong)
  then have "s = rstrip s @ rev (takeWhile py_isspace (rev s))"
    unfolding rstrip_def rev_append rev_rev_ident .
  then have "hd s = hd (rstrip s @ rev (takeWhile py_isspace (rev s)))" by simp
  with ne have "hd s = hd (rstrip s)" by simp
  with h show ?thesis by simp
qed

text \<open>Stripping is idempotent.\<close>

lemma strip_strip: "strip (strip s) = strip s"
proof (cases "strip s = []")
  case True
  have "strip [] = []" by (simp add: strip_def lstrip_def rstrip_def)
  with True show ?thesis by simp
next
  case False
  then have r: "rstrip (lstrip s) \<noteq> []" by (simp add: strip_def)
  then have l: "lstrip s \<noteq> []" by (auto simp: rstrip_Nil)
  have "\<not> py_isspace (hd (strip s))"
    unfolding strip_def using r l by (intro hd_rstrip hd_lstrip)
  with False have "lstrip (strip s) = strip s" by (rule lstrip_id)
  moreover have "\<not> py_isspace (last (strip s))"
    unfolding strip_def using r by (rule last_rstrip)
  with False have "rstrip (strip s) = strip s" by (rule rstrip_id)
  ultimately show ?thesis by (simp add: strip_def)
qed

lemma CR_notin_translate: "CR \<notin> set (translate_newlines s)"
  by (induction s rule: translate_newlines.induct) auto

lemma translate_newlines_id: "CR \<notin> set s \<Longrightarrow> translate_newlines s = s"
  by (induction s rule: translate_newlines.induct) auto

lemma set_split_lines: "l \<in> set (split_lines s) \<Longrightarrow> set l \<subseteq> set s"
proof (induction s arbitrary: l)
  case Nil
  then show ?case by simp
next
  case (Cons c cs)
  show ?case
  proof (cases "split_lines cs")
    case Nil
    with Cons.prems show ?thesis by (auto split: if_splits)
  next
    case (Cons k ks)
    have "set k \<subseteq> set cs" using Cons.IH [of k] Cons by simp
    moreover have "l \<in> set ks \<Longrightarrow> set l \<subseteq> set cs" using Cons.IH [of l] Cons by simp
    ultimately show ?thesis using Cons.prems Cons by (auto split: if_splits)
  qed
qed

lemma split_lines_shape:
  "l \<in> set (split_lines s) \<Longrightarrow> l \<noteq> [] \<and> LF \<notin> set (butlast l)"
proof (induction s arbitrary: l)
  case Nil
  then show ?case by simp
next
  case (Cons c cs)
  show ?case
  proof (cases "c = LF")
    case True
    with Cons show ?thesis by auto
  next
    case False
    show ?thesis
    proof (cases "split_lines cs")
      case Nil
      with False Cons.prems show ?thesis by simp
    next
      case (Cons k ks)
      with False Cons.prems have "l = c # k \<or> l \<in> set ks" by auto
      then show ?thesis
      proof
        assume l: "l = c # k"
        from Cons have "k \<in> set (split_lines cs)" by simp
        then have "k \<noteq> [] \<and> LF \<notin> set (butlast k)" by (rule Cons.IH)
        with l False show ?thesis by simp
      next
        assume "l \<in> set ks"
        with Cons have "l \<in> set (split_lines cs)" by simp
        then show ?thesis by (rule Cons.IH)
      qed
    qed
  qed
qed

lemma split_lines_line:
  "LF \<notin> set u \<Longrightarrow> split_lines (u @ LF # rest) = (u @ [LF]) # split_lines rest"
  by (induction u) auto

lemma split_lines_write_urls:
  "\<forall>u\<in>set us. LF \<notin> set u \<Longrightarrow> split_lines (write_urls us) = map (\<lambda>u. u @ [LF]) us"
proof (induction us)
  case Nil
  then show ?case by (simp add: write_urls_def)
next
  case (Cons u us)
  then have "split_lines (u @ LF # write_urls us) = (u @ [LF]) # split_lines (write_urls us)"
    by (intro split_lines_line) simp
  with Cons show ?case by (simp add: write_urls_def)
qed

text \<open>An entry read from the backlog is stripped, not empty and free of line breaks.\<close>

definition url_entry :: "string \<Rightarrow> bool" where
  "url_entry u \<longleftrightarrow> u \<noteq> [] \<and> strip u = u \<and> LF \<notin> set u \<and> CR \<notin> set u"

lemma strip_line_no_LF:
  assumes "l \<in> set (split_lines s)"
  shows "LF \<notin> set (strip l)"
proof -
  from assms have ne: "l \<noteq> []" and b: "LF \<notin> set (butlast l)"
    using split_lines_shape by blast+
  show ?thesis
  proof (cases "last l = LF")
    case True
    with ne have "l = butlast l @ [LF]" by (metis append_butlast_last_id)
    then have "strip l = strip (butlast l)"
      by (metis strip_snoc_space py_isspace_LF)
    with b set_strip show ?thesis by fastforce
  next
    case False
    with ne b have "LF \<notin> set l"
      by (metis append_butlast_last_id set_append Un_iff empty_iff empty_set set_ConsD)
    with set_strip show ?thesis by blast
  qed
qed

lemma read_urls_entries: "u \<in> set (read_urls_from_file s) \<Longrightarrow> url_entry u"
proof (cases "source_file s")
  case None
  assume "u \<in> set (read_urls_from_file s)"
  with None show ?thesis by (simp add: read_urls_from_file_def)
next
  case (Some contents)
  assume "u \<in> set (read_urls_from_file s)"
  with Some obtain l where l: "l \<in> set (file_lines contents)" and u: "u = strip l" and ne: "strip l \<noteq> []"
    by (auto simp: read_urls_from_file_def)
  from l have "LF \<notin> set (strip l)"
    unfolding file_lines_def by (rule strip_line_no_LF)
  moreover from l have "set l \<subseteq> set (translate_newlines contents)"
    unfolding file_lines_def by (rule set_split_lines)
  then have "CR \<notin> set (strip l)"
    using CR_notin_translate set_strip by blast
  ultimately show ?thesis
    using u ne by (simp add: url_entry_def strip_strip)
qed

lemma read_written_urls:
  assumes "\<forall>u\<in>set us. url_entry u"
  shows "read_urls_from_file (s\<lparr>source_file := Some (write_urls us)\<rparr>) = us"
proof -
  have cr: "CR \<notin> set (write_urls us)"
    using assms by (auto simp: write_urls_def url_entry_def)
  have "file_lines (write_urls us) = map (\<lambda>u. u @ [LF]) us"
    unfolding file_lines_def using assms cr
    by (simp add: translate_newlines_id split_lines_write_urls url_entry_def)
  moreover have "\<And>u. url_entry u \<Longrightarrow> strip (u @ [LF]) = u \<and> u \<noteq> []"
    by (simp add: url_entry_def strip_snoc_space py_isspace_LF)
  ultimately show ?thesis
    using assms by (simp add: read_urls_from_file_def filter_map comp_def map_idI)
qed

section \<open>Facts about the parser of the reply\<close>

lemma split_on_not_Nil: "split_on d s \<noteq> []"
  by (induction s) (auto split: list.splits)

lemma split_on_no_sep: "d \<notin> set x \<Longrightarrow> split_on d x = [x]"
  by (induction x) auto

lemma split_on_append_sep:
  "d \<notin> set x \<Longrightarrow> split_on d (x @ d # rest) = x # split_on d rest"
  by (induction x) auto

lemma split_on_join:
  "items \<noteq> [] \<Longrightarrow> \<forall>i\<in>set items. d \<notin> set i \<Longrightarrow> split_on d (join_with [d] items) = items"
proof (induction "[d]" items rule: join_with.induct)
  case 1
  then show ?case by simp
next
  case (2 x)
  then show ?case by (simp add: split_on_no_sep)
next
  case (3 x y ys)
  then show ?case by (simp add: split_on_append_sep)
qed

lemma fold_patterns_lookup:
  "distinct (map fst ps) \<Longrightarrow>
   fold (\<lambda>(k, p) d. case f p of None \<Rightarrow> d | Some g \<Rightarrow> d(k \<mapsto> h k g)) ps d0 key =
     (case map_of ps key of
        None \<Rightarrow> d0 key
      | Some p \<Rightarrow> (case f p of None \<Rightarrow> d0 key | Some g \<Rightarrow> Some (h key g)))"
proof (induction ps arbitrary: d0)
  case Nil
  then show ?case by simp
next
  case (Cons a ps)
  obtain k p where a: "a = (k, p)" by (cases a)
  from Cons.prems a have k: "k \<notin> fst ` set ps" and d: "distinct (map fst ps)" by auto
  from k have m: "map_of ps k = None" by (simp add: map_of_eq_None_iff)
  show ?case
    using a m by (auto simp: Cons.IH [OF d] split: option.splits)
qed

lemma distinct_patterns: "distinct (map fst patterns)"
  by (simp add: patterns_def)

lemma extract_fields_lookup:
  "extract_fields t key =
     (case map_of patterns key of
        None \<Rightarrow> None
      | Some pat \<Rightarrow> map_option (field_of_group key) (re_search pat t))"
  unfolding extract_fields_def
  by (simp add: fold_patterns_lookup [OF distinct_patterns] split: option.splits)

lemma list_key_field:
  assumes "key \<in> set list_keys" and "map_of patterns key = Some pat" and "re_search pat t = Some g"
  shows "extract_fields t key =
           Some (List_Value (if strip g \<noteq> [] \<and> lower (strip g) \<noteq> ''none''
                             then split_items (strip g) else []))"
  using assms by (simp add: extract_fields_lookup field_of_group_def Let_def)

lemma split_items_join:
  assumes "items \<noteq> []" and "\<forall>i\<in>set items. CHR '','' \<notin> set i"
  shows "split_items (join_with '','' items) = map strip (filter (\<lambda>i. strip i \<noteq> []) items)"
  using assms by (simp add: split_items_def split_on_join)

lemma parse_reply_metadata:
  "metadata (parse_reply c reply) key =
     (case metadata_match reply of
        None \<Rightarrow> None
      | Some t \<Rightarrow>
          (case map_of patterns key of
             None \<Rightarrow> None
           | Some pat \<Rightarrow> map_option (field_of_group key) (re_search pat t)))"
  by (simp add: parse_reply_def extract_fields_lookup split: option.splits)

lemma partition_sub_here: "starts_with p s \<Longrightarrow> partition_sub p s = Some ([], drop (length p) s)"
  by (cases s) (auto simp: starts_with_def)

lemma partition_sub_skip:
  "c \<notin> set xs \<Longrightarrow> partition_sub (c # p) (xs @ c # p @ ys) = Some (xs, ys)"
proof (induction xs)
  case Nil
  then show ?case by (simp add: starts_with_def)
next
  case (Cons x xs)
  then have "\<not> starts_with (c # p) (x # xs @ c # p @ ys)"
    by (auto simp: starts_with_def)
  with Cons show ?case by simp
qed

text \<open>A bracketed value of \<open>n\<close> items.\<close>

lemma split_on_items: "split_on CHR '','' (concat (replicate n ''a,'')) = replicate n ''a'' @ [[]]"
  by (induction n) auto

lemma strip_no_space: "\<forall>c\<in>set s. \<not> py_isspace c \<Longrightarrow> strip s = s"
proof (cases s)
  case Nil
  then show ?thesis by (simp add: strip_eval)
next
  case (Cons a list)
  assume a: "\<forall>c\<in>set s. \<not> py_isspace c"
  with Cons have "lstrip s = s" by (simp add: lstrip_def)
  moreover from a Cons have "rstrip s = s"
    by (intro rstrip_id) auto
  ultimately show ?thesis by (simp add: strip_def)
qed

lemma split_items_many: "split_items (concat (replicate n ''a,'')) = replicate n ''a''"
proof -
  have a: "strip ''a'' = ''a''" by (simp add: strip_eval)
  have e: "strip [] = []" by (simp add: strip_eval)
  have "filter (\<lambda>item. strip item \<noteq> []) (replicate n ''a'' @ [[]]) = replicate n ''a''"
    using a e by (induction n) auto
  moreover have "map strip (replicate n ''a'') = replicate n ''a''"
    using a by simp
  ultimately show ?thesis by (simp add: split_items_def split_on_items)
qed

lemma items_chars: "set (concat (replicate n ''a,'')) \<subseteq> {CHR ''a'', CHR '',''}"
  by (induction n) auto

lemma metadata_match_reply_with_items:
  assumes "LF \<notin> set label"
  shows "metadata_match (reply_with_items label n)
           = Some (label @ '' ['' @ concat (replicate n ''a,'') @ '']'')"
proof -
  have "LF \<notin> set (label @ '' ['' @ concat (replicate n ''a,'') @ '']'')"
    using items_chars [of n] assms by auto
  then have "partition_sub (LF # LF # ''## Content'')
        ((label @ '' ['' @ concat (replicate n ''a,'') @ '']'') @ LF # (LF # ''## Content'') @ [])
      = Some (label @ '' ['' @ concat (replicate n ''a,'') @ '']'', [])"
    by (rule partition_sub_skip)
  then show ?thesis
    by (simp add: metadata_match_def reply_with_items_def starts_with_def)
qed

lemma re_search_here: "m s = Some g \<Longrightarrow> re_search m s = Some g"
  by (cases s) auto

lemma list_of_reply_with_items:
  "re_search (match_list_field label) (label @ '' ['' @ concat (replicate n ''a,'') @ '']'')
     = Some (concat (replicate n ''a,''))"
proof -
  define body where "body = concat (replicate n ''a,'')"
  have n: "\<And>x. x \<in> set body \<Longrightarrow> x \<noteq> CHR '']''"
    using items_chars [of n] by (auto simp: body_def)
  have "takeWhile (\<lambda>x. x \<noteq> CHR '']'') (body @ '']'') = body @ takeWhile (\<lambda>x. x \<noteq> CHR '']'') '']''"
    using n by (rule takeWhile_append2)
  then have "match_list_field label (label @ '' ['' @ body @ '']'') = Some body"
    by (simp add: match_list_field_def match_label_def py_isspace_def)
  then have "re_search (match_list_field label) (label @ '' ['' @ body @ '']'') = Some body"
    by (rule re_search_here)
  then show ?thesis by (simp only: body_def)
qed

lemma items_any_length:
  assumes "key \<in> set list_keys" and "map_of patterns key = Some (match_list_field label)"
    and "LF \<notin> set label"
  shows "metadata (parse_reply c (reply_with_items label n)) key
           = Some (List_Value (replicate n ''a''))"
proof -
  have s: "strip (concat (replicate n ''a,'')) = concat (replicate n ''a,'')"
    using items_chars [of n] by (intro strip_no_space) (auto simp: py_isspace_def)
  have "field_of_group key (concat (replicate n ''a,'')) = List_Value (replicate n ''a'')"
  proof (cases n)
    case 0
    then show ?thesis using assms(1) by (simp add: field_of_group_def strip_eval)
  next
    case (Suc m)
    have "lower_char CHR ''a'' = CHR ''a''" by code_simp
    with Suc have "lower (concat (replicate n ''a,'')) \<noteq> ''none''"
      by (simp add: lower_def)
    moreover from Suc have "concat (replicate n ''a,'') \<noteq> []" by simp
    ultimately show ?thesis
      using assms(1) s by (simp add: field_of_group_def split_items_many)
  qed
  then show ?thesis
    by (simp only: parse_reply_metadata metadata_match_reply_with_items [OF assms(3)] assms(2)
          list_of_reply_with_items option.case option.map)
qed

lemma list_field_of_reply:
  assumes "key \<in> set list_keys" and "map_of patterns key = Some pat"
  shows "metadata (parse_reply c reply) key =
     (case metadata_match reply of
        None \<Rightarrow> None
      | Some t \<Rightarrow>
          map_option
            (\<lambda>g. List_Value (if strip g \<noteq> [] \<and> lower (strip g) \<noteq> ''none''
                              then split_items (strip g) else []))
            (re_search pat t))"
proof -
  have "field_of_group key =
      (\<lambda>g. List_Value (if strip g \<noteq> [] \<and> lower (strip g) \<noteq> ''none''
                        then split_items (strip g) else []))"
    using assms(1) by (intro ext) (simp add: field_of_group_def Let_def)
  then show ?thesis
    using assms(2) by (simp add: parse_reply_metadata split: option.splits)
qed

section \<open>Facts about the file name\<close>

lemma takeWhile_eq_replicate:
  "takeWhile (\<lambda>c. c = d) xs = replicate (length (takeWhile (\<lambda>c. c = d) xs)) d"
proof -
  have "\<forall>x\<in>set (takeWhile (\<lambda>c. c = d) xs). x = d" by (auto dest: set_takeWhileD)
  then show ?thesis by (simp add: replicate_length_same)
qed

lemma strip_char_suffix:
  "dropWhile (\<lambda>c. c = d) s
     = strip_char d s @ rev (takeWhile (\<lambda>c. c = d) (rev (dropWhile (\<lambda>c. c = d) s)))"
proof -
  let ?P = "\<lambda>c. c = d"
  let ?m = "dropWhile ?P s"
  have "rev ?m = takeWhile ?P (rev ?m) @ dropWhile ?P (rev ?m)" by simp
  then have "rev (rev ?m) = rev (takeWhile ?P (rev ?m) @ dropWhile ?P (rev ?m))"
    by (rule arg_cong)
  then show ?thesis
    unfolding strip_char_def rev_append rev_rev_ident .
qed

lemma strip_char_decompose:
  "\<exists>a b. s = replicate a d @ strip_char d s @ replicate b d"
proof -
  let ?P = "\<lambda>c. c = d"
  let ?m = "dropWhile ?P s"
  let ?a = "length (takeWhile ?P s)"
  let ?b = "length (takeWhile ?P (rev ?m))"
  have 1: "s = takeWhile ?P s @ ?m" by simp
  have "rev (takeWhile ?P (rev ?m)) = rev (replicate ?b d)"
    using takeWhile_eq_replicate [of d "rev ?m"] by (rule arg_cong)
  then have 3: "rev (takeWhile ?P (rev ?m)) = replicate ?b d" by simp
  have "s = takeWhile ?P s @ strip_char d s @ rev (takeWhile ?P (rev ?m))"
    using 1 strip_char_suffix [of d s] by simp
  also have "\<dots> = replicate ?a d @ strip_char d s @ replicate ?b d"
    using takeWhile_eq_replicate [of d s] 3 by simp
  finally show ?thesis by blast
qed

lemma strip_char_empty_iff: "strip_char d s = [] \<longleftrightarrow> set s \<subseteq> {d}"
proof
  assume e: "strip_char d s = []"
  obtain a b where "s = replicate a d @ strip_char d s @ replicate b d"
    using strip_char_decompose by blast
  with e have "s = replicate a d @ replicate b d" by simp
  then have "set s = set (replicate a d @ replicate b d)" by (rule arg_cong)
  then show "set s \<subseteq> {d}" by (auto split: if_splits)
next
  assume "set s \<subseteq> {d}"
  then have "dropWhile (\<lambda>c. c = d) s = []" by (induction s) auto
  then show "strip_char d s = []" by (simp only: strip_char_def rev.simps dropWhile.simps)
qed

lemma strip_char_ends:
  assumes "strip_char d s \<noteq> []"
  shows "hd (strip_char d s) \<noteq> d \<and> last (strip_char d s) \<noteq> d"
proof -
  let ?P = "\<lambda>c. c = d"
  let ?m = "dropWhile ?P s"
  from assms have ne: "dropWhile ?P (rev ?m) \<noteq> []" by (simp add: strip_char_def)
  then have "\<not> ?P (hd (dropWhile ?P (rev ?m)))" by (rule hd_dropWhile)
  with ne have l: "last (strip_char d s) \<noteq> d" by (simp add: strip_char_def last_rev)
  have m: "?m \<noteq> []"
  proof
    assume "?m = []"
    then have "dropWhile ?P (rev ?m) = []" by (simp only: rev.simps dropWhile.simps)
    with ne show False by contradiction
  qed
  then have h: "hd ?m \<noteq> d" using hd_dropWhile [of ?P s] by simp
  have "hd ?m = hd (strip_char d s @ rev (takeWhile ?P (rev ?m)))"
    using strip_char_suffix [of d s] by (rule arg_cong)
  with assms have "hd ?m = hd (strip_char d s)" by simp
  with h l show ?thesis by simp
qed

lemma sanitize_safe: "\<forall>c\<in>set (sanitize f). safe_char c"
proof -
  have "safe_char CHR ''_''" by (simp add: safe_char_def)
  then show ?thesis by (auto simp: sanitize_def)
qed

lemma sanitize_nth:
  "length (sanitize f) = length f
   \<and> (\<forall>i<length f. sanitize f ! i = (if safe_char (f ! i) then f ! i else CHR ''_''))"
  by (simp add: sanitize_def)

lemma derive_filename_unfold:
  "derive_filename parsed timestamp =
     sanitize (replace_sub ''www.'' [] (netloc parsed) @ ''_''
       @ (if strip_char CHR ''/'' (path parsed) \<noteq> []
          then take 100 (map (\<lambda>c. if c = CHR ''/'' then CHR ''_'' else c)
                          (strip_char CHR ''/'' (path parsed)))
          else timestamp)
       @ ''.md'')"
  by (simp add: derive_filename_def filename_domain_def filename_path_def Let_def)


lemma derive_filename_cong:
  assumes "netloc p = netloc q" and "path p = path q"
    and "strip_char CHR ''/'' (path p) \<noteq> [] \<or> t1 = t2"
  shows "derive_filename p t1 = derive_filename q t2"
  using assms by (auto simp: derive_filename_unfold)



section \<open>Facts about the page metadata\<close>

lemma author_of_page:
  "author (extract_metadata_from_html world html_content url)
     = or_default (extract_author (parse_html world html_content)) ''Unknown''"
  by (simp add: extract_metadata_from_html_def Let_def)

section \<open>Facts about processing a URL and the loop\<close>

lemma fetch_url_content_snd:
  "snd (fetch_url_content self world s url) = s\<lparr>requests := requests s @ [(url, 30)]\<rparr>"
  by (auto simp: fetch_url_content_def Let_def split: sum.splits)

lemma fetch_url_content_eq:
  "fst (fetch_url_content self world s url) = r \<Longrightarrow>
   fetch_url_content self world s url = (r, s\<lparr>requests := requests s @ [(url, 30)]\<rparr>)"
  using fetch_url_content_snd [of self world s url]
  by (simp add: prod_eq_iff)

lemma fetch_url_content_ok:
  "http_get world (length (requests s)) url 30 = Inr r \<Longrightarrow> status r = 200 \<Longrightarrow>
   text_result r = Inr h \<Longrightarrow> fst (fetch_url_content self world s url) = Some h"
  by (simp add: fetch_url_content_def Let_def)

lemma read_urls_frame:
  "source_file s' = source_file s \<Longrightarrow> read_urls_from_file s' = read_urls_from_file s"
  by (simp add: read_urls_from_file_def)

lemma read_urls_after_remove:
  "read_urls_from_file (remove_processed_url s url) = filter (\<lambda>u. u \<noteq> url) (read_urls_from_file s)"
proof -
  have "\<forall>u\<in>set (filter (\<lambda>u. u \<noteq> url) (read_urls_from_file s)). url_entry u"
    using read_urls_entries by auto
  then show ?thesis
    by (simp add: remove_processed_url_def read_written_urls)
qed

lemma process_url_abort:
  assumes "fst (fetch_url_content self world s url) = Some h" and "h \<noteq> []"
    and "generate_content world (length (prompts s)) (prompt_for world url h) = Inl e"
    and "mentions_gemini e"
  shows "process_url self world s url
           = (Inl e, s\<lparr>requests := requests s @ [(url, 30)],
                       prompts := prompts s @ [prompt_for world url h]\<rparr>)"
  using assms(2,3,4)
  by (simp add: process_url_def fetch_url_content_eq [OF assms(1)] Let_def
        process_with_gemini_def prompt_for_def handle_exception_def)

lemma process_url_skip:
  assumes "fst (fetch_url_content self world s url) = Some h" and "h \<noteq> []"
    and "generate_content world (length (prompts s)) (prompt_for world url h) = Inl e"
    and "\<not> mentions_gemini e"
  shows "process_url self world s url
           = (Inr False, s\<lparr>requests := requests s @ [(url, 30)],
                           prompts := prompts s @ [prompt_for world url h]\<rparr>)"
  using assms(2,3,4)
  by (simp add: process_url_def fetch_url_content_eq [OF assms(1)] Let_def
        process_with_gemini_def prompt_for_def handle_exception_def)

lemma process_url_no_content:
  assumes "fst (fetch_url_content self world s url) = None
           \<or> fst (fetch_url_content self world s url) = Some []"
  shows "process_url self world s url = (Inr False, s\<lparr>requests := requests s @ [(url, 30)]\<rparr>)"
  using assms
proof
  assume 1: "fst (fetch_url_content self world s url) = None"
  show ?thesis by (simp add: process_url_def fetch_url_content_eq [OF 1])
next
  assume 2: "fst (fetch_url_content self world s url) = Some []"
  show ?thesis by (simp add: process_url_def fetch_url_content_eq [OF 2])
qed

text \<open>What a successful \<open>process_url\<close> leaves behind.\<close>

lemma create_markdown_file_ok:
  assumes "open_output world (length (opens s)) (output_dir self @ ''/''
             @ derive_filename (urlparse world url) (strftime_now world (now_calls s))) = None"
  shows "\<exists>d n. create_markdown_file self world s url page gemini
           = (Inr (output_dir self @ ''/''
                   @ derive_filename (urlparse world url) (strftime_now world (now_calls s))),
              s\<lparr>now_calls := n,
                opens := opens s @ [output_dir self @ ''/''
                   @ derive_filename (urlparse world url) (strftime_now world (now_calls s))],
                documents := (documents s)(output_dir self @ ''/''
                   @ derive_filename (urlparse world url) (strftime_now world (now_calls s)) \<mapsto> d)\<rparr>)"
proof -
  note o = assms
  have "\<And>f g. documents (s\<lparr>now_calls := f, opens := g\<rparr>) = documents s" by simp
  then show ?thesis
    unfolding create_markdown_file_def Let_def o option.case
    by (intro exI) (simp only: prod.inject simp_thms)
qed

lemma process_url_success:
  assumes "fst (fetch_url_content self world s url) = Some h" and "h \<noteq> []"
    and "generate_content world (length (prompts s)) (prompt_for world url h) = Inr reply"
    and "open_output world (length (opens s)) (output_dir self @ ''/''
           @ derive_filename (urlparse world url) (strftime_now world (now_calls s))) = None"
  shows "\<exists>s1. process_url self world s url = (Inr True, s1)
           \<and> requests s1 = requests s @ [(url, 30)]
           \<and> prompts s1 = prompts s @ [prompt_for world url h]
           \<and> length (opens s1) = Suc (length (opens s))
           \<and> read_urls_from_file s1 = filter (\<lambda>u. u \<noteq> url) (read_urls_from_file s)
           \<and> (\<exists>t d. processed_file s1 = processed_file s @ [(t, url, output_dir self @ ''/''
                     @ derive_filename (urlparse world url) (strftime_now world (now_calls s)))]
                  \<and> documents s1 = (documents s)(output_dir self @ ''/''
                     @ derive_filename (urlparse world url) (strftime_now world (now_calls s)) \<mapsto> d))"
proof -
  let ?s0 = "s\<lparr>requests := requests s @ [(url, 30)],
               prompts := prompts s @ [prompt_for world url h]\<rparr>"
  let ?page = "extract_metadata_from_html world h url"
  let ?g = "parse_reply (to_markdown world (content ?page)) reply"
  define p where "p = output_dir self @ ''/''
      @ derive_filename (urlparse world url) (strftime_now world (now_calls s))"
  have o: "open_output world (length (opens ?s0)) (output_dir self @ ''/''
      @ derive_filename (urlparse world url) (strftime_now world (now_calls ?s0))) = None"
    using assms(4) by simp
  have "\<exists>d n. create_markdown_file self world ?s0 url ?page ?g
      = (Inr p, ?s0\<lparr>now_calls := n, opens := opens ?s0 @ [p],
                      documents := (documents ?s0)(p \<mapsto> d)\<rparr>)"
    using create_markdown_file_ok [OF o, of ?page ?g] by (simp add: p_def)
  then obtain d n where c: "create_markdown_file self world ?s0 url ?page ?g
      = (Inr p, ?s0\<lparr>now_calls := n, opens := opens ?s0 @ [p],
                      documents := (documents ?s0)(p \<mapsto> d)\<rparr>)"
    by blast
  let ?s2 = "?s0\<lparr>now_calls := n, opens := opens ?s0 @ [p], documents := (documents ?s0)(p \<mapsto> d)\<rparr>"
  let ?s4 = "add_to_processed_file world (remove_processed_url ?s2 url) url p"
  have r: "read_urls_from_file ?s2 = read_urls_from_file s"
    by (rule read_urls_frame) simp
  have pu: "process_url self world s url = (Inr True, ?s4)"
    using assms(2,3) c
    by (simp add: process_url_def fetch_url_content_eq [OF assms(1)] Let_def
          process_with_gemini_def prompt_for_def)
  have "read_urls_from_file ?s4 = read_urls_from_file (remove_processed_url ?s2 url)"
    by (rule read_urls_frame) (simp add: add_to_processed_file_def)
  then have 1: "read_urls_from_file ?s4 = filter (\<lambda>u. u \<noteq> url) (read_urls_from_file s)"
    using r by (simp add: read_urls_after_remove)
  have 2: "requests ?s4 = requests s @ [(url, 30)]"
    by (simp add: add_to_processed_file_def remove_processed_url_def Let_def)
  have sp: "prompts ?s4 = prompts s @ [prompt_for world url h]"
    by (simp add: add_to_processed_file_def remove_processed_url_def Let_def)
  have so: "length (opens ?s4) = Suc (length (opens s))"
    by (simp add: add_to_processed_file_def remove_processed_url_def Let_def)
  have 3: "processed_file ?s4 = processed_file s
      @ [(isoformat_now world (now_calls (remove_processed_url ?s2 url)), url, p)]"
    by (simp add: add_to_processed_file_def remove_processed_url_def Let_def)
  have 4: "documents ?s4 = (documents s)(p \<mapsto> d)"
    by (simp add: add_to_processed_file_def remove_processed_url_def Let_def)
  from pu 1 2 sp so 3 4 show ?thesis unfolding p_def by blast
qed

text \<open>
  The loop on a backlog whose first URLs \<open>us\<close> are processed successfully and whose next
  URL \<open>u\<close> meets a failing enrichment call that stops the run. The URL that comes \<open>j\<close>-th
  gets call number \<open>j\<close> of each service, counted from the state the loop starts in.
\<close>

lemma run_loop_until_abort:
  assumes ok: "\<forall>j<length us. \<exists>r h reply.
                  http_get world (length (requests s) + j) (us ! j) 30 = Inr r
                  \<and> status r = 200 \<and> text_result r = Inr h \<and> h \<noteq> []
                  \<and> generate_content world (length (prompts s) + j) (prompt_for world (us ! j) h)
                      = Inr reply
                  \<and> (\<forall>n. open_output world (length (opens s) + j) (output_dir self @ ''/''
                         @ derive_filename (urlparse world (us ! j)) (strftime_now world n)) = None)"
    and f: "http_get world (length (requests s) + length us) u 30 = Inr r"
           "status r = 200" "text_result r = Inr h" "h \<noteq> []"
           "generate_content world (length (prompts s) + length us) (prompt_for world u h) = Inl e"
           "mentions_gemini e"
    and inv: "dom (documents s) = (\<lambda>(t, x, p). p) ` set (processed_file s)"
  shows "requests (run_loop self world (us @ u # vs) s)
           = requests s @ map (\<lambda>x. (x, 30)) (us @ [u])
       \<and> length (prompts (run_loop self world (us @ u # vs) s))
           = length (prompts s) + length us + 1
       \<and> read_urls_from_file (run_loop self world (us @ u # vs) s)
           = filter (\<lambda>x. x \<notin> set us) (read_urls_from_file s)
       \<and> (\<exists>ns. length ns = length us
            \<and> map (\<lambda>(t, x, p). (x, p)) (processed_file (run_loop self world (us @ u # vs) s))
              = map (\<lambda>(t, x, p). (x, p)) (processed_file s)
                @ map (\<lambda>(x, n). (x, output_dir self @ ''/''
                        @ derive_filename (urlparse world x) (strftime_now world n))) (zip us ns))
       \<and> dom (documents (run_loop self world (us @ u # vs) s))
           = (\<lambda>(t, x, p). p) ` set (processed_file (run_loop self world (us @ u # vs) s))"
  using ok f(1,5) inv
proof (induction us arbitrary: s)
  case Nil
  from Nil.prems(2) f(2,3) have fu: "fst (fetch_url_content self world s u) = Some h"
    by (intro fetch_url_content_ok) auto
  from Nil.prems(3) have g: "generate_content world (length (prompts s)) (prompt_for world u h) = Inl e"
    by simp
  let ?s1 = "s\<lparr>requests := requests s @ [(u, 30)], prompts := prompts s @ [prompt_for world u h]\<rparr>"
  have "process_url self world s u = (Inl e, ?s1)"
    using fu f(4) g f(6) by (rule process_url_abort)
  then have r: "run_loop self world ([] @ u # vs) s = ?s1"
    using f(6) by simp
  have "read_urls_from_file ?s1 = read_urls_from_file s"
    by (rule read_urls_frame) simp
  with Nil.prems(4) show ?case unfolding r by simp
next
  case (Cons x xs)
  from Cons.prems(1) have "0 < length (x # xs) \<longrightarrow> (\<exists>r h reply.
                  http_get world (length (requests s) + 0) ((x # xs) ! 0) 30 = Inr r
                  \<and> status r = 200 \<and> text_result r = Inr h \<and> h \<noteq> []
                  \<and> generate_content world (length (prompts s) + 0) (prompt_for world ((x # xs) ! 0) h)
                      = Inr reply
                  \<and> (\<forall>n. open_output world (length (opens s) + 0) (output_dir self @ ''/''
                         @ derive_filename (urlparse world ((x # xs) ! 0)) (strftime_now world n)) = None))"
    by (rule spec)
  then have "\<exists>r h reply.
                  http_get world (length (requests s)) x 30 = Inr r
                  \<and> status r = 200 \<and> text_result r = Inr h \<and> h \<noteq> []
                  \<and> generate_content world (length (prompts s)) (prompt_for world x h) = Inr reply
                  \<and> (\<forall>n. open_output world (length (opens s)) (output_dir self @ ''/''
                         @ derive_filename (urlparse world x) (strftime_now world n)) = None)"
    by simp
  then obtain rx hx reply where
    gx: "http_get world (length (requests s)) x 30 = Inr rx" "status rx = 200"
        "text_result rx = Inr hx"
    and x: "hx \<noteq> []" "generate_content world (length (prompts s)) (prompt_for world x hx) = Inr reply"
    and o: "\<forall>n. open_output world (length (opens s)) (output_dir self @ ''/''
                         @ derive_filename (urlparse world x) (strftime_now world n)) = None"
    by (elim exE conjE)
  from gx have fx: "fst (fetch_url_content self world s x) = Some hx"
    by (rule fetch_url_content_ok)
  from o have ox: "open_output world (length (opens s)) (output_dir self @ ''/''
      @ derive_filename (urlparse world x) (strftime_now world (now_calls s))) = None"
    by (rule spec)
  define p where "p = output_dir self @ ''/''
      @ derive_filename (urlparse world x) (strftime_now world (now_calls s))"
  obtain s1 t d where
    pu: "process_url self world s x = (Inr True, s1)"
    and rq: "requests s1 = requests s @ [(x, 30)]"
    and pr: "prompts s1 = prompts s @ [prompt_for world x hx]"
    and op: "length (opens s1) = Suc (length (opens s))"
    and ru: "read_urls_from_file s1 = filter (\<lambda>u. u \<noteq> x) (read_urls_from_file s)"
    and pf: "processed_file s1 = processed_file s @ [(t, x, p)]"
    and dc: "documents s1 = (documents s)(p \<mapsto> d)"
    using process_url_success [OF fx x ox] unfolding p_def by blast
  have inv1: "dom (documents s1) = (\<lambda>(t, x, p). p) ` set (processed_file s1)"
    using Cons.prems(4) pf dc by auto
  have ok1: "\<forall>j<length xs. \<exists>r h reply.
                  http_get world (length (requests s1) + j) (xs ! j) 30 = Inr r
                  \<and> status r = 200 \<and> text_result r = Inr h \<and> h \<noteq> []
                  \<and> generate_content world (length (prompts s1) + j) (prompt_for world (xs ! j) h)
                      = Inr reply
                  \<and> (\<forall>n. open_output world (length (opens s1) + j) (output_dir self @ ''/''
                         @ derive_filename (urlparse world (xs ! j)) (strftime_now world n)) = None)"
  proof (intro allI impI)
    fix j assume j: "j < length xs"
    from Cons.prems(1) have "Suc j < length (x # xs) \<longrightarrow> (\<exists>r h reply.
                  http_get world (length (requests s) + Suc j) ((x # xs) ! Suc j) 30 = Inr r
                  \<and> status r = 200 \<and> text_result r = Inr h \<and> h \<noteq> []
                  \<and> generate_content world (length (prompts s) + Suc j)
                        (prompt_for world ((x # xs) ! Suc j) h) = Inr reply
                  \<and> (\<forall>n. open_output world (length (opens s) + Suc j) (output_dir self @ ''/''
                         @ derive_filename (urlparse world ((x # xs) ! Suc j)) (strftime_now world n))
                       = None))"
      by (rule spec)
    with j show "\<exists>r h reply.
                  http_get world (length (requests s1) + j) (xs ! j) 30 = Inr r
                  \<and> status r = 200 \<and> text_result r = Inr h \<and> h \<noteq> []
                  \<and> generate_content world (length (prompts s1) + j) (prompt_for world (xs ! j) h)
                      = Inr reply
                  \<and> (\<forall>n. open_output world (length (opens s1) + j) (output_dir self @ ''/''
                         @ derive_filename (urlparse world (xs ! j)) (strftime_now world n)) = None)"
      by (simp add: rq pr op)
  qed
  have f1: "http_get world (length (requests s1) + length xs) u 30 = Inr r"
    using Cons.prems(2) by (simp add: rq)
  have f5: "generate_content world (length (prompts s1) + length xs) (prompt_for world u h) = Inl e"
    using Cons.prems(3) by (simp add: pr)
  note ih = Cons.IH [OF ok1 f1 f5 inv1]
  have r: "run_loop self world ((x # xs) @ u # vs) s = run_loop self world (xs @ u # vs) s1"
    using pu by simp
  have fl: "filter (\<lambda>y. y \<notin> set xs) (filter (\<lambda>u. u \<noteq> x) (read_urls_from_file s))
      = filter (\<lambda>y. y \<notin> set (x # xs)) (read_urls_from_file s)"
    by (auto intro: filter_cong)
  from ih obtain ns where ns: "length ns = length xs"
    "map (\<lambda>(t, x, p). (x, p)) (processed_file (run_loop self world (xs @ u # vs) s1))
       = map (\<lambda>(t, x, p). (x, p)) (processed_file s1)
         @ map (\<lambda>(x, n). (x, output_dir self @ ''/''
                 @ derive_filename (urlparse world x) (strftime_now world n))) (zip xs ns)"
    by blast
  have "length (now_calls s # ns) = length (x # xs)
      \<and> map (\<lambda>(t, x, p). (x, p)) (processed_file (run_loop self world (xs @ u # vs) s1))
       = map (\<lambda>(t, x, p). (x, p)) (processed_file s)
         @ map (\<lambda>(x, n). (x, output_dir self @ ''/''
                 @ derive_filename (urlparse world x) (strftime_now world n)))
             (zip (x # xs) (now_calls s # ns))"
    using ns pf by (simp add: p_def)
  then have ex: "\<exists>ns. length ns = length (x # xs)
      \<and> map (\<lambda>(t, x, p). (x, p)) (processed_file (run_loop self world (xs @ u # vs) s1))
       = map (\<lambda>(t, x, p). (x, p)) (processed_file s)
         @ map (\<lambda>(x, n). (x, output_dir self @ ''/''
                 @ derive_filename (urlparse world x) (strftime_now world n)))
             (zip (x # xs) ns)"
    by blast
  have c1: "requests (run_loop self world (xs @ u # vs) s1)
      = requests s @ map (\<lambda>x. (x, 30)) ((x # xs) @ [u])"
    using ih rq by simp
  have c1a: "length (prompts (run_loop self world (xs @ u # vs) s1))
      = length (prompts s) + length (x # xs) + 1"
    using ih pr by simp
  have c2: "read_urls_from_file (run_loop self world (xs @ u # vs) s1)
      = filter (\<lambda>y. y \<notin> set (x # xs)) (read_urls_from_file s)"
    using ih ru fl by simp
  have c4: "dom (documents (run_loop self world (xs @ u # vs) s1))
      = (\<lambda>(t, x, p). p) ` set (processed_file (run_loop self world (xs @ u # vs) s1))"
    using ih by blast
  show ?case
    unfolding r using c1 c1a c2 ex c4 by (intro conjI)
qed

lemma ledger_urls:
  assumes "length ns = length us"
    and "map (\<lambda>(t, x, p). (x, p)) ledger = map (\<lambda>(x, n). (x, g x n)) (zip us ns)"
  shows "map (\<lambda>(t, x, p). x) ledger = us"
proof -
  have "map (\<lambda>(t, x, p). x) ledger = map fst (map (\<lambda>(t, x, p). (x, p)) ledger)"
    by (simp add: comp_def case_prod_beta)
  also have "\<dots> = map fst (map (\<lambda>(x, n). (x, g x n)) (zip us ns))"
    using assms(2) by simp
  also have "\<dots> = map fst (zip us ns)"
    by (simp add: comp_def case_prod_beta)
  also have "\<dots> = us" using assms(1) by simp
  finally show ?thesis .
qed

lemma ledger_paths:
  assumes "length ns = length us"
    and "map (\<lambda>(t, x, p). (x, p)) ledger = map (\<lambda>(x, n). (x, g x n)) (zip us ns)"
    and "\<forall>x\<in>set us. \<forall>n. g x n = out x"
  shows "map (\<lambda>(t, x, p). p) ledger = map out us"
proof -
  have "map (\<lambda>(t, x, p). p) ledger = map snd (map (\<lambda>(t, x, p). (x, p)) ledger)"
    by (simp add: comp_def case_prod_beta)
  also have "\<dots> = map snd (map (\<lambda>(x, n). (x, g x n)) (zip us ns))"
    using assms(2) by simp
  also have "\<dots> = map (\<lambda>(x, n). g x n) (zip us ns)"
    by (simp add: comp_def case_prod_beta)
  also have "\<dots> = map (\<lambda>(x, n). out x) (zip us ns)"
    using assms(3) by (auto dest: set_zip_leftD)
  also have "\<dots> = map out (map fst (zip us ns))"
    by (simp add: comp_def case_prod_beta)
  also have "\<dots> = map out us" using assms(1) by simp
  finally show ?thesis .
qed

lemma card_image_ledger:
  "card ((\<lambda>(t, x, p). p) ` set ledger) \<le> length ledger
   \<and> (distinct (map (\<lambda>(t, x, p). p) ledger)
        \<longrightarrow> card ((\<lambda>(t, x, p). p) ` set ledger) = length ledger)"
proof -
  have "(\<lambda>(t, x, p). p) ` set ledger = set (map (\<lambda>(t, x, p). p) ledger)" by simp
  moreover have "card (set (map (\<lambda>(t, x, p). p) ledger)) \<le> length (map (\<lambda>(t, x, p). p) ledger)"
    by (rule card_length)
  moreover have "distinct (map (\<lambda>(t, x, p). p) ledger)
      \<Longrightarrow> card (set (map (\<lambda>(t, x, p). p) ledger)) = length (map (\<lambda>(t, x, p). p) ledger)"
    by (rule distinct_card)
  ultimately show ?thesis by simp
qed

lemma process_url_write_error:
  assumes "fst (fetch_url_content self world s url) = Some h" and "h \<noteq> []"
    and "generate_content world (length (prompts s)) (prompt_for world url h) = Inr reply"
    and "open_output world (length (opens s)) (output_dir self @ ''/''
           @ derive_filename (urlparse world url) (strftime_now world (now_calls s))) = Some e"
    and "mentions_gemini e"
  shows "\<exists>s1. process_url self world s url = (Inl e, s1)
           \<and> requests s1 = requests s @ [(url, 30)]
           \<and> source_file s1 = source_file s
           \<and> processed_file s1 = processed_file s
           \<and> documents s1 = documents s"
  using assms(2,3,4,5)
  by (simp add: process_url_def fetch_url_content_eq [OF assms(1)] Let_def
        process_with_gemini_def prompt_for_def create_markdown_file_def handle_exception_def)

section \<open>Facts about the example world\<close>

lemma example_get:
  "url \<noteq> ''https://example.com/refused'' \<Longrightarrow> url \<noteq> ''https://example.com/missing'' \<Longrightarrow>
   http_get (example_world failing failure ro) n url 30 = Inr \<lparr>status = 200, text_result = Inr url\<rparr>"
  by (simp add: example_world_def)

lemma example_fetch:
  "url \<noteq> ''https://example.com/refused'' \<Longrightarrow> url \<noteq> ''https://example.com/missing'' \<Longrightarrow>
   fst (fetch_url_content self (example_world failing failure ro) s url) = Some url"
  by (simp add: fetch_url_content_def example_world_def Let_def)

lemma example_content:
  "content (extract_metadata_from_html (example_world failing failure ro) h url)
     = Some (Tag ''body'' [] [NavigableString h])"
  by (simp add: extract_metadata_from_html_def example_world_def Let_def find_tag_def
        soup_descendants_def named_def with_attr_def or_else_def)

lemma example_prompt_for:
  "prompt_for (example_world failing failure ro) url h = prompt_of url h"
proof -
  have "to_markdown (example_world failing failure ro) (Some (Tag ''body'' [] [NavigableString h])) = h"
    by (simp add: example_world_def get_text_def)
  then show ?thesis by (simp add: prompt_for_def example_content)
qed

lemma example_generate:
  "generate_content (example_world failing failure ro) n p
     = (if n \<in> set failing then Inl (Exception failure) else Inr example_reply)"
  by (simp add: example_world_def)

lemma example_open: "open_output (example_world failing failure False) n p = None"
  by (simp add: example_world_def)

lemma example_urlparse_world: "urlparse (example_world failing failure ro) = example_urlparse"
  by (simp add: example_world_def)

lemma example_backlog:
  "read_urls_from_file (start_state
      (''https://example.com/a'' @ [LF] @ ''https://example.com/b'' @ [LF]
       @ ''https://example.com/c'' @ [LF] @ ''https://example.com/d'' @ [LF]))
   = [''https://example.com/a'', ''https://example.com/b'', ''https://example.com/c'',
      ''https://example.com/d'']"
  by code_simp

lemma repeated_backlog:
  "read_urls_from_file (start_state
      (''https://example.com/a'' @ [LF] @ ''https://example.com/b'' @ [LF]
       @ ''https://example.com/a'' @ [LF] @ ''https://example.com/d'' @ [LF]))
   = [''https://example.com/a'', ''https://example.com/b'', ''https://example.com/a'',
      ''https://example.com/d'']"
  by code_simp

lemma example_gemini_message: "mentions_gemini (Exception ''Gemini API error: quota exceeded'')"
  by code_simp

lemma example_paths:
  "strip_char CHR ''/'' (path (example_urlparse ''https://example.com/a'')) \<noteq> []
   \<and> strip_char CHR ''/'' (path (example_urlparse ''https://example.com/b'')) \<noteq> []
   \<and> derive_filename (example_urlparse ''https://example.com/a'') []
       \<noteq> derive_filename (example_urlparse ''https://example.com/b'') []"
  by code_simp

lemma collision_backlog:
  "read_urls_from_file (start_state
      (''https://example.com/a?x=1'' @ [LF] @ ''https://example.com/a?x=2'' @ [LF]
       @ ''https://example.com/c'' @ [LF] @ ''https://example.com/a?x=1'' @ [LF]))
   = [''https://example.com/a?x=1'', ''https://example.com/a?x=2'', ''https://example.com/c'',
      ''https://example.com/a?x=1'']"
  by code_simp

lemma collision_filenames:
  "derive_filename (example_urlparse ''https://example.com/a?x=1'') ''20260101_000000''
     = ''example.com_a.md''
   \<and> derive_filename (example_urlparse ''https://example.com/a?x=2'') ''20260101_000000''
     = ''example.com_a.md''"
  by code_simp

lemma example_strftime: "strftime_now (example_world failing failure ro) n = ''20260101_000000''"
  by (simp add: example_world_def)

lemma two_url_backlog:
  "read_urls_from_file (start_state (''https://example.com/a'' @ [LF] @ ''https://example.com/b'' @ [LF]))
     = [''https://example.com/a'', ''https://example.com/b'']
   \<and> read_urls_from_file (start_state
       (''https://gemini.google.com/faq'' @ [LF] @ ''https://example.com/b'' @ [LF]))
     = [''https://gemini.google.com/faq'', ''https://example.com/b'']"
  by code_simp

lemma quota_message: "\<not> mentions_gemini (Exception ''429 Resource has been exhausted (e.g. check quota).'')"
  by code_simp

lemma permission_message:
  "mentions_gemini (Exception (''[Errno 13] Permission denied: '' @ [CHR 0x27]
      @ ''processed_documents/gemini.google.com_faq.md'' @ [CHR 0x27]))"
  by code_simp

lemma gemini_host_filename:
  "derive_filename (example_urlparse ''https://gemini.google.com/faq'') ''20260101_000000''
     = ''gemini.google.com_faq.md''"
  by code_simp

section \<open>Which exceptions stop the run\<close>

text \<open>
  C1 is what the program sets out to do: \<open>process_with_gemini\<close> logs every exception of the
  call as a Gemini API error and raises it again, and \<open>process_url\<close> and \<open>run\<close> stop the run
  on an exception that they take for one. But they recognise it by the word \<^verbatim>\<open>gemini\<close> in its
  message, and the exception is raised again with the message it came with. Two runs of
  the program show both halves of the claim failing. In the first the enrichment call on
  the first URL (call number 0 of the service) raises with the message of an exhausted
  quota, which does not hold the word: the URL is skipped, the run goes on, and the second
  URL is fetched and processed.
  In the second the enrichment call succeeds and opening the output file fails; the
  message names the path, the path holds the host \<^verbatim>\<open>gemini.google.com\<close>, and the run stops
  before the second URL.
\<close>

theorem gemini_detection_by_message:
  "generate_content
       (example_world [0] ''429 Resource has been exhausted (e.g. check quota).'' False) 0
       (prompt_for
          (example_world [0] ''429 Resource has been exhausted (e.g. check quota).'' False)
          ''https://example.com/a'' ''https://example.com/a'')
     = Inl (Exception ''429 Resource has been exhausted (e.g. check quota).'')
   \<and> requests (run example_config
        (example_world [0] ''429 Resource has been exhausted (e.g. check quota).'' False)
        (start_state (''https://example.com/a'' @ [LF] @ ''https://example.com/b'' @ [LF])))
     = [(''https://example.com/a'', 30), (''https://example.com/b'', 30)]
   \<and> map (\<lambda>(t, x, p). x) (processed_file (run example_config
        (example_world [0] ''429 Resource has been exhausted (e.g. check quota).'' False)
        (start_state (''https://example.com/a'' @ [LF] @ ''https://example.com/b'' @ [LF]))))
     = [''https://example.com/b'']
   \<and> read_urls_from_file (run example_config
        (example_world [0] ''429 Resource has been exhausted (e.g. check quota).'' False)
        (start_state (''https://example.com/a'' @ [LF] @ ''https://example.com/b'' @ [LF])))
     = [''https://example.com/a'']
   \<and> generate_content (example_world [] [] True) 0
       (prompt_for (example_world [] [] True)
          ''https://gemini.google.com/faq'' ''https://gemini.google.com/faq'')
     = Inr example_reply
   \<and> requests (run example_config (example_world [] [] True)
        (start_state (''https://gemini.google.com/faq'' @ [LF] @ ''https://example.com/b'' @ [LF])))
     = [(''https://gemini.google.com/faq'', 30)]
   \<and> processed_file (run example_config (example_world [] [] True)
        (start_state (''https://gemini.google.com/faq'' @ [LF] @ ''https://example.com/b'' @ [LF])))
     = []
   \<and> read_urls_from_file (run example_config (example_world [] [] True)
        (start_state (''https://gemini.google.com/faq'' @ [LF] @ ''https://example.com/b'' @ [LF])))
     = [''https://gemini.google.com/faq'', ''https://example.com/b'']"
proof -
  define w1 where "w1 = example_world [0]
      ''429 Resource has been exhausted (e.g. check quota).'' False"
  define s1 where "s1 = start_state (''https://example.com/a'' @ [LF] @ ''https://example.com/b'' @ [LF])"
  define w2 where "w2 = example_world [] [] True"
  define s2 where "s2 = start_state
      (''https://gemini.google.com/faq'' @ [LF] @ ''https://example.com/b'' @ [LF])"
  let ?a = "''https://example.com/a''" and ?b = "''https://example.com/b''"
  let ?g = "''https://gemini.google.com/faq''"
  let ?e = "Exception ''429 Resource has been exhausted (e.g. check quota).''"
  let ?pe = "Exception (''[Errno 13] Permission denied: '' @ [CHR 0x27]
      @ ''processed_documents/gemini.google.com_faq.md'' @ [CHR 0x27])"
  have b1: "read_urls_from_file s1 = [?a, ?b]"
    unfolding s1_def using two_url_backlog by simp
  have i1: "processed_file s1 = []" "requests s1 = []" "prompts s1 = []" "opens s1 = []"
    by (simp_all add: s1_def start_state_def)
  let ?sa = "s1\<lparr>requests := requests s1 @ [(?a, 30)], prompts := prompts s1 @ [prompt_for w1 ?a ?a]\<rparr>"
  have fa: "fst (fetch_url_content example_config w1 s1 ?a) = Some ?a"
    and fb: "fst (fetch_url_content example_config w1 ?sa ?b) = Some ?b"
    by (simp_all add: w1_def example_fetch)
  have g0: "generate_content w1 0 (prompt_for w1 ?a ?a) = Inl ?e"
    by (simp add: w1_def example_generate)
  have ga: "generate_content w1 (length (prompts s1)) (prompt_for w1 ?a ?a) = Inl ?e"
    using g0 by (simp add: i1)
  have gb: "generate_content w1 (length (prompts ?sa)) (prompt_for w1 ?b ?b) = Inr example_reply"
    by (simp add: w1_def example_generate i1)
  have wr: "open_output w1 (length (opens ?sa)) (output_dir example_config @ ''/''
      @ derive_filename (urlparse w1 ?b) (strftime_now w1 (now_calls ?sa))) = None"
    by (simp add: w1_def example_open)
  have pa: "process_url example_config w1 s1 ?a = (Inr False, ?sa)"
    using fa _ ga quota_message by (rule process_url_skip) simp
  obtain sb where pb: "process_url example_config w1 ?sa ?b = (Inr True, sb)"
    and rb: "requests sb = requests ?sa @ [(?b, 30)]"
    and ub: "read_urls_from_file sb = filter (\<lambda>u. u \<noteq> ?b) (read_urls_from_file ?sa)"
    and lb: "\<exists>t p. processed_file sb = processed_file ?sa @ [(t, ?b, p)]"
    using process_url_success [OF fb _ gb wr] by auto
  have r1: "run example_config w1 s1 = sb"
    using b1 pa pb by (simp add: run_def)
  have ua: "read_urls_from_file ?sa = read_urls_from_file s1"
    by (rule read_urls_frame) simp
  have 1: "requests (run example_config w1 s1) = [(?a, 30), (?b, 30)]"
    using rb i1 by (simp add: r1)
  have 2: "map (\<lambda>(t, x, p). x) (processed_file (run example_config w1 s1)) = [?b]"
    using lb i1 by (auto simp: r1)
  have 3: "read_urls_from_file (run example_config w1 s1) = [?a]"
    using ub ua b1 by (simp add: r1)
  have b2: "read_urls_from_file s2 = [?g, ?b]"
    unfolding s2_def using two_url_backlog by simp
  have i2: "processed_file s2 = []" "requests s2 = []" "now_calls s2 = 0" "prompts s2 = []"
      "opens s2 = []"
    by (simp_all add: s2_def start_state_def)
  have fg: "fst (fetch_url_content example_config w2 s2 ?g) = Some ?g"
    by (simp add: w2_def example_fetch)
  have h0: "generate_content w2 0 (prompt_for w2 ?g ?g) = Inr example_reply"
    by (simp add: w2_def example_generate)
  have gg: "generate_content w2 (length (prompts s2)) (prompt_for w2 ?g ?g) = Inr example_reply"
    using h0 by (simp add: i2)
  have og: "open_output w2 (length (opens s2)) (output_dir example_config @ ''/''
      @ derive_filename (urlparse w2 ?g) (strftime_now w2 (now_calls s2))) = Some ?pe"
    using gemini_host_filename
    by (simp add: w2_def example_urlparse_world example_strftime example_config_def)
       (simp add: example_world_def)
  obtain sg where pg: "process_url example_config w2 s2 ?g = (Inl ?pe, sg)"
    and rg: "requests sg = requests s2 @ [(?g, 30)]"
    and ug: "source_file sg = source_file s2"
    and lg: "processed_file sg = processed_file s2"
    using process_url_write_error [OF fg _ gg og permission_message] by auto
  have r2: "run example_config w2 s2 = sg"
    using b2 pg permission_message by (simp add: run_def)
  have 4: "requests (run example_config w2 s2) = [(?g, 30)]"
    using rg i2 by (simp add: r2)
  have 5: "processed_file (run example_config w2 s2) = []"
    using lg i2 by (simp add: r2)
  have "read_urls_from_file sg = read_urls_from_file s2"
    using ug by (rule read_urls_frame)
  then have 6: "read_urls_from_file (run example_config w2 s2) = [?g, ?b]"
    using b2 by (simp add: r2)
  show ?thesis
    apply (intro conjI)
           apply (rule g0 [unfolded w1_def])
          apply (rule 1 [unfolded s1_def w1_def])
         apply (rule 2 [unfolded s1_def w1_def])
        apply (rule 3 [unfolded s1_def w1_def])
       apply (rule h0 [unfolded w2_def])
      apply (rule 4 [unfolded s2_def w2_def])
     apply (rule 5 [unfolded s2_def w2_def])
    apply (rule 6 [unfolded s2_def w2_def])
    done
qed

section \<open>A run that stops at a failing enrichment call\<close>

text \<open>
  C2, as stated, fails. The backlog holds two URLs that differ in the query string only,
  then a URL on which the enrichment call (call number 2 of the service) fails with a
  message that names Gemini, then the first URL once more. The first two URLs are
  processed successfully and the run stops at the third, after two ledger records; but
  there is one output document, not two (both URLs derive the file name
  \<^verbatim>\<open>example.com_a.md\<close>, and the second write replaces the first), and the backlog holds the
  third URL alone, not the third and the fourth (removing the first URL removed every line
  equal to it).
\<close>

theorem duplicate_and_collision_counterexample:
  "read_urls_from_file (start_state
      (''https://example.com/a?x=1'' @ [LF] @ ''https://example.com/a?x=2'' @ [LF]
       @ ''https://example.com/c'' @ [LF] @ ''https://example.com/a?x=1'' @ [LF]))
     = [''https://example.com/a?x=1'', ''https://example.com/a?x=2'', ''https://example.com/c'',
        ''https://example.com/a?x=1'']
   \<and> map (\<lambda>(t, x, p). x) (processed_file (run example_config
       (example_world [2] ''Gemini API error: quota exceeded'' False)
       (start_state
         (''https://example.com/a?x=1'' @ [LF] @ ''https://example.com/a?x=2'' @ [LF]
          @ ''https://example.com/c'' @ [LF] @ ''https://example.com/a?x=1'' @ [LF]))))
     = [''https://example.com/a?x=1'', ''https://example.com/a?x=2'']
   \<and> requests (run example_config
       (example_world [2] ''Gemini API error: quota exceeded'' False)
       (start_state
         (''https://example.com/a?x=1'' @ [LF] @ ''https://example.com/a?x=2'' @ [LF]
          @ ''https://example.com/c'' @ [LF] @ ''https://example.com/a?x=1'' @ [LF])))
     = [(''https://example.com/a?x=1'', 30), (''https://example.com/a?x=2'', 30),
        (''https://example.com/c'', 30)]
   \<and> card (dom (documents (run example_config
       (example_world [2] ''Gemini API error: quota exceeded'' False)
       (start_state
         (''https://example.com/a?x=1'' @ [LF] @ ''https://example.com/a?x=2'' @ [LF]
          @ ''https://example.com/c'' @ [LF] @ ''https://example.com/a?x=1'' @ [LF]))))) = 1
   \<and> read_urls_from_file (run example_config
       (example_world [2] ''Gemini API error: quota exceeded'' False)
       (start_state
         (''https://example.com/a?x=1'' @ [LF] @ ''https://example.com/a?x=2'' @ [LF]
          @ ''https://example.com/c'' @ [LF] @ ''https://example.com/a?x=1'' @ [LF])))
     = [''https://example.com/c'']"
proof -
  define w where "w = example_world [2] ''Gemini API error: quota exceeded'' False"
  define s where "s = start_state
         (''https://example.com/a?x=1'' @ [LF] @ ''https://example.com/a?x=2'' @ [LF]
          @ ''https://example.com/c'' @ [LF] @ ''https://example.com/a?x=1'' @ [LF])"
  let ?us = "[''https://example.com/a?x=1'', ''https://example.com/a?x=2'']"
  let ?c = "''https://example.com/c''"
  let ?vs = "[''https://example.com/a?x=1'']"
  let ?g = "\<lambda>x n. output_dir example_config @ ''/'' @ derive_filename (urlparse w x) (strftime_now w n)"
  let ?P = "''processed_documents/example.com_a.md''"
  have backlog: "read_urls_from_file s = ?us @ ?c # ?vs"
    unfolding s_def using collision_backlog by simp
  have fresh: "processed_file s = []" "documents s = Map.empty" "requests s = []"
      "prompts s = []" "opens s = []"
    by (simp_all add: s_def start_state_def)
  have ok: "\<forall>j<length ?us. \<exists>r h reply.
      http_get w (length (requests s) + j) (?us ! j) 30 = Inr r
      \<and> status r = 200 \<and> text_result r = Inr h \<and> h \<noteq> []
      \<and> generate_content w (length (prompts s) + j) (prompt_for w (?us ! j) h) = Inr reply
      \<and> (\<forall>n. open_output w (length (opens s) + j) (output_dir example_config @ ''/''
            @ derive_filename (urlparse w (?us ! j)) (strftime_now w n)) = None)"
    by (simp add: w_def fresh example_get example_generate example_open All_less_Suc)
  have f: "http_get w (length (requests s) + length ?us) ?c 30
        = Inr \<lparr>status = 200, text_result = Inr ?c\<rparr>"
      "status \<lparr>status = 200, text_result = Inr ?c\<rparr> = 200"
      "text_result \<lparr>status = 200, text_result = Inr ?c\<rparr> = Inr ?c" "?c \<noteq> []"
      "generate_content w (length (prompts s) + length ?us) (prompt_for w ?c ?c)
        = Inl (Exception ''Gemini API error: quota exceeded'')"
    by (simp_all add: w_def fresh example_get example_generate)
  have inv: "dom (documents s) = (\<lambda>(t, x, p). p) ` set (processed_file s)"
    using fresh by simp
  have r: "run example_config w s = run_loop example_config w (?us @ ?c # ?vs) s"
    using backlog by (simp add: run_def)
  note l = run_loop_until_abort [OF ok f example_gemini_message inv, of ?vs, folded r]
  from l have "requests (run example_config w s) = requests s @ map (\<lambda>x. (x, 30)) (?us @ [?c])"
    by blast
  with fresh have 1: "requests (run example_config w s)
      = [(''https://example.com/a?x=1'', 30), (''https://example.com/a?x=2'', 30), (?c, 30)]"
    by simp
  from l have "read_urls_from_file (run example_config w s)
      = filter (\<lambda>x. x \<notin> set ?us) (read_urls_from_file s)" by blast
  with backlog have 2: "read_urls_from_file (run example_config w s) = [?c]" by simp
  from l fresh obtain ns where ns: "length ns = length ?us"
    "map (\<lambda>(t, x, p). (x, p)) (processed_file (run example_config w s))
       = map (\<lambda>(x, n). (x, ?g x n)) (zip ?us ns)"
    by auto
  have 3: "map (\<lambda>(t, x, p). x) (processed_file (run example_config w s)) = ?us"
    using ns by (rule ledger_urls)
  have "\<forall>x\<in>set ?us. \<forall>n. ?g x n = ?P"
    using collision_filenames
    by (simp add: w_def example_urlparse_world example_strftime example_config_def)
  with ns have "map (\<lambda>(t, x, p). p) (processed_file (run example_config w s)) = map (\<lambda>x. ?P) ?us"
    by (rule ledger_paths)
  then have "set (map (\<lambda>(t, x, p). p) (processed_file (run example_config w s))) = {?P}"
    by simp
  then have im: "(\<lambda>(t, x, p). p) ` set (processed_file (run example_config w s)) = {?P}"
    by simp
  from l have dm: "dom (documents (run example_config w s))
      = (\<lambda>(t, x, p). p) ` set (processed_file (run example_config w s))" by blast
  have "dom (documents (run example_config w s)) = {?P}" by (rule trans [OF dm im])
  then have 4: "card (dom (documents (run example_config w s))) = 1" by simp
  show ?thesis
    apply (intro conjI)
        apply (rule collision_backlog)
       apply (rule 3 [unfolded s_def w_def])
      apply (rule 1 [unfolded s_def w_def])
     apply (rule 4 [unfolded s_def w_def])
    apply (rule 2 [unfolded s_def w_def])
    done
qed

text \<open>
  C2, amended. For every backlog that reads as the URLs \<open>us\<close>, then \<open>u\<close>, then \<open>vs\<close>, where
  each URL of \<open>us\<close> is processed successfully (when its turn comes its page is fetched with
  status 200 and a text that is not empty, the service answers its prompt, and the output
  file named for it can be opened) and the enrichment call then made for \<open>u\<close> raises an
  exception whose message holds \<^verbatim>\<open>gemini\<close> in any case: a run that starts with no output
  document and an empty ledger ends with exactly one ledger record per URL of \<open>us\<close>, in
  order, and with \<open>u\<close> as the last page fetched; the output documents are exactly the files
  these records name, so there are as many as URLs in \<open>us\<close> when the names are pairwise
  distinct (as they are when the URLs of \<open>us\<close> have paths that are not empty without their
  outer slashes and pairwise distinct derived file names) and fewer when two URLs derive
  the same name; and the backlog then reads as those URLs of \<open>u\<close> and \<open>vs\<close> that are not among
  \<open>us\<close>, in their order. So it begins with \<open>u\<close> exactly when \<open>u\<close> is not one of \<open>us\<close>, and it is
  \<open>u\<close> and all of \<open>vs\<close> when the backlog lists no URL twice; when \<open>u\<close> repeats a URL of \<open>us\<close>
  (the service answered the call made for it before and fails the call made for it now)
  its lines were removed when it was processed, and \<open>u\<close> is in the backlog no more. The
  outcome of a call is that of this call of the run (the \<open>j\<close>-th URL gets call number \<open>j\<close>
  of each service, counted from the start of the run), not a function of the URL.
\<close>

theorem run_aborts_at_enrichment_failure:
  assumes backlog: "read_urls_from_file s = us @ u # vs"
    and fresh: "processed_file s = []" "documents s = Map.empty"
    and ok: "\<forall>j<length us. \<exists>r h reply.
               http_get world (length (requests s) + j) (us ! j) 30 = Inr r
               \<and> status r = 200 \<and> text_result r = Inr h \<and> h \<noteq> []
               \<and> generate_content world (length (prompts s) + j) (prompt_for world (us ! j) h)
                   = Inr reply
               \<and> (\<forall>n. open_output world (length (opens s) + j) (output_dir self @ ''/''
            @ derive_filename (urlparse world (us ! j)) (strftime_now world n)) = None)"
    and f: "http_get world (length (requests s) + length us) u 30 = Inr r"
           "status r = 200" "text_result r = Inr h" "h \<noteq> []"
           "generate_content world (length (prompts s) + length us) (prompt_for world u h) = Inl e"
           "mentions_gemini e"
  shows "length (processed_file (run self world s)) = length us
    \<and> map (\<lambda>(t, x, p). x) (processed_file (run self world s)) = us
    \<and> dom (documents (run self world s))
        = (\<lambda>(t, x, p). p) ` set (processed_file (run self world s))
    \<and> card (dom (documents (run self world s))) \<le> length us
    \<and> (distinct (map (\<lambda>(t, x, p). p) (processed_file (run self world s)))
         \<longrightarrow> card (dom (documents (run self world s))) = length us)
    \<and> ((\<forall>x\<in>set us. strip_char CHR ''/'' (path (urlparse world x)) \<noteq> [])
         \<and> distinct (map (\<lambda>x. derive_filename (urlparse world x) []) us)
         \<longrightarrow> card (dom (documents (run self world s))) = length us)
    \<and> read_urls_from_file (run self world s) = filter (\<lambda>x. x \<notin> set us) (u # vs)
    \<and> (u \<notin> set us
         \<longrightarrow> read_urls_from_file (run self world s) = u # filter (\<lambda>x. x \<notin> set us) vs)
    \<and> (u \<in> set us
         \<longrightarrow> read_urls_from_file (run self world s) = filter (\<lambda>x. x \<notin> set us) vs
             \<and> u \<notin> set (read_urls_from_file (run self world s)))
    \<and> (distinct (us @ u # vs) \<longrightarrow> read_urls_from_file (run self world s) = u # vs)
    \<and> requests (run self world s) = requests s @ map (\<lambda>x. (x, 30)) (us @ [u])
    \<and> length (prompts (run self world s)) = length (prompts s) + length us + 1"
proof -
  let ?s = "run self world s"
  let ?g = "\<lambda>x n. output_dir self @ ''/'' @ derive_filename (urlparse world x) (strftime_now world n)"
  have r: "?s = run_loop self world (us @ u # vs) s"
    using backlog by (simp add: run_def)
  have inv: "dom (documents s) = (\<lambda>(t, x, p). p) ` set (processed_file s)"
    using fresh by simp
  note l = run_loop_until_abort [OF ok f inv, of vs, folded r]
  from l have rq: "requests ?s = requests s @ map (\<lambda>x. (x, 30)) (us @ [u])" by blast
  from l have pq: "length (prompts ?s) = length (prompts s) + length us + 1" by blast
  from l have ru: "read_urls_from_file ?s = filter (\<lambda>x. x \<notin> set us) (read_urls_from_file s)"
    by blast
  from l have dm: "dom (documents ?s) = (\<lambda>(t, x, p). p) ` set (processed_file ?s)" by blast
  from l fresh obtain ns where ns: "length ns = length us"
    "map (\<lambda>(t, x, p). (x, p)) (processed_file ?s) = map (\<lambda>(x, n). (x, ?g x n)) (zip us ns)"
    by auto
  have lu: "map (\<lambda>(t, x, p). x) (processed_file ?s) = us"
    using ns by (rule ledger_urls)
  then have "length (map (\<lambda>(t, x, p). x) (processed_file ?s)) = length us" by simp
  then have ln: "length (processed_file ?s) = length us" by simp
  have e: "filter (\<lambda>x. x \<notin> set us) us = []" by (induction us) auto
  have bl: "read_urls_from_file ?s = filter (\<lambda>x. x \<notin> set us) (u # vs)"
    using ru backlog e by simp
  have bn: "u \<notin> set us \<Longrightarrow> read_urls_from_file ?s = u # filter (\<lambda>x. x \<notin> set us) vs"
    using bl by simp
  have bi: "u \<in> set us \<Longrightarrow> read_urls_from_file ?s = filter (\<lambda>x. x \<notin> set us) vs
      \<and> u \<notin> set (read_urls_from_file ?s)"
    using bl by simp
  have bd: "distinct (us @ u # vs) \<Longrightarrow> read_urls_from_file ?s = u # vs"
  proof -
    assume d: "distinct (us @ u # vs)"
    then have "\<forall>x\<in>set vs. x \<notin> set us" by auto
    then have "filter (\<lambda>x. x \<notin> set us) vs = vs" by simp
    moreover from d have "u \<notin> set us" by auto
    ultimately show ?thesis using bl by simp
  qed
  note cd = card_image_ledger [of "processed_file ?s", folded dm, unfolded ln]
  have cn: "(\<forall>x\<in>set us. strip_char CHR ''/'' (path (urlparse world x)) \<noteq> [])
         \<and> distinct (map (\<lambda>x. derive_filename (urlparse world x) []) us)
         \<Longrightarrow> card (dom (documents ?s)) = length us"
  proof -
    assume a: "(\<forall>x\<in>set us. strip_char CHR ''/'' (path (urlparse world x)) \<noteq> [])
         \<and> distinct (map (\<lambda>x. derive_filename (urlparse world x) []) us)"
    let ?out = "\<lambda>x. output_dir self @ ''/'' @ derive_filename (urlparse world x) []"
    have "\<forall>x\<in>set us. \<forall>n. ?g x n = ?out x"
      using a by (auto intro: derive_filename_cong)
    with ns have p: "map (\<lambda>(t, x, p). p) (processed_file ?s) = map ?out us"
      by (rule ledger_paths)
    have "inj_on (\<lambda>f. output_dir self @ ''/'' @ f)
        (set (map (\<lambda>x. derive_filename (urlparse world x) []) us))"
      by (rule inj_onI) simp
    with a have "distinct (map (\<lambda>f. output_dir self @ ''/'' @ f)
        (map (\<lambda>x. derive_filename (urlparse world x) []) us))"
      by (simp only: distinct_map simp_thms)
    then have "distinct (map ?out us)" by (simp add: comp_def)
    with p cd show ?thesis by simp
  qed
  from ln lu dm cd cn bl bn bi bd rq pq show ?thesis by blast
qed

theorem run_aborts_at_enrichment_failure_witness:
  "length (processed_file (run example_config
       (example_world [2] ''Gemini API error: quota exceeded'' False)
       (start_state (''https://example.com/a'' @ [LF] @ ''https://example.com/b'' @ [LF]
          @ ''https://example.com/c'' @ [LF] @ ''https://example.com/d'' @ [LF])))) = 2
   \<and> card (dom (documents (run example_config
       (example_world [2] ''Gemini API error: quota exceeded'' False)
       (start_state (''https://example.com/a'' @ [LF] @ ''https://example.com/b'' @ [LF]
          @ ''https://example.com/c'' @ [LF] @ ''https://example.com/d'' @ [LF]))))) = 2
   \<and> read_urls_from_file (run example_config
       (example_world [2] ''Gemini API error: quota exceeded'' False)
       (start_state (''https://example.com/a'' @ [LF] @ ''https://example.com/b'' @ [LF]
          @ ''https://example.com/c'' @ [LF] @ ''https://example.com/d'' @ [LF])))
     = [''https://example.com/c'', ''https://example.com/d'']
   \<and> requests (run example_config
       (example_world [2] ''Gemini API error: quota exceeded'' False)
       (start_state (''https://example.com/a'' @ [LF] @ ''https://example.com/b'' @ [LF]
          @ ''https://example.com/c'' @ [LF] @ ''https://example.com/d'' @ [LF])))
     = [(''https://example.com/a'', 30), (''https://example.com/b'', 30),
        (''https://example.com/c'', 30)]
   \<and> map (\<lambda>(t, x, p). x) (processed_file (run example_config
       (example_world [2] ''Gemini API error: quota exceeded'' False)
       (start_state (''https://example.com/a'' @ [LF] @ ''https://example.com/b'' @ [LF]
          @ ''https://example.com/a'' @ [LF] @ ''https://example.com/d'' @ [LF]))))
     = [''https://example.com/a'', ''https://example.com/b'']
   \<and> requests (run example_config
       (example_world [2] ''Gemini API error: quota exceeded'' False)
       (start_state (''https://example.com/a'' @ [LF] @ ''https://example.com/b'' @ [LF]
          @ ''https://example.com/a'' @ [LF] @ ''https://example.com/d'' @ [LF])))
     = [(''https://example.com/a'', 30), (''https://example.com/b'', 30),
        (''https://example.com/a'', 30)]
   \<and> read_urls_from_file (run example_config
       (example_world [2] ''Gemini API error: quota exceeded'' False)
       (start_state (''https://example.com/a'' @ [LF] @ ''https://example.com/b'' @ [LF]
          @ ''https://example.com/a'' @ [LF] @ ''https://example.com/d'' @ [LF])))
     = [''https://example.com/d'']"
proof -
  define w where "w = example_world [2] ''Gemini API error: quota exceeded'' False"
  define s where "s = start_state (''https://example.com/a'' @ [LF] @ ''https://example.com/b'' @ [LF]
          @ ''https://example.com/c'' @ [LF] @ ''https://example.com/d'' @ [LF])"
  define s' where "s' = start_state (''https://example.com/a'' @ [LF] @ ''https://example.com/b'' @ [LF]
          @ ''https://example.com/a'' @ [LF] @ ''https://example.com/d'' @ [LF])"
  let ?a = "''https://example.com/a''" and ?c = "''https://example.com/c''"
  let ?us = "[''https://example.com/a'', ''https://example.com/b'']"
  let ?vs = "[''https://example.com/d'']"
  have backlog: "read_urls_from_file s = ?us @ ?c # ?vs"
    unfolding s_def using example_backlog by simp
  have backlog': "read_urls_from_file s' = ?us @ ?a # ?vs"
    unfolding s'_def using repeated_backlog by simp
  have fresh: "processed_file s = []" "documents s = Map.empty"
    and zero: "requests s = []" "prompts s = []" "opens s = []"
    by (simp_all add: s_def start_state_def)
  have fresh': "processed_file s' = []" "documents s' = Map.empty"
    and zero': "requests s' = []" "prompts s' = []" "opens s' = []"
    by (simp_all add: s'_def start_state_def)
  have ok: "\<forall>j<length ?us. \<exists>r h reply.
      http_get w (length (requests s) + j) (?us ! j) 30 = Inr r
      \<and> status r = 200 \<and> text_result r = Inr h \<and> h \<noteq> []
      \<and> generate_content w (length (prompts s) + j) (prompt_for w (?us ! j) h) = Inr reply
      \<and> (\<forall>n. open_output w (length (opens s) + j) (output_dir example_config @ ''/''
            @ derive_filename (urlparse w (?us ! j)) (strftime_now w n)) = None)"
    by (simp add: w_def zero example_get example_generate example_open All_less_Suc)
  have ok': "\<forall>j<length ?us. \<exists>r h reply.
      http_get w (length (requests s') + j) (?us ! j) 30 = Inr r
      \<and> status r = 200 \<and> text_result r = Inr h \<and> h \<noteq> []
      \<and> generate_content w (length (prompts s') + j) (prompt_for w (?us ! j) h) = Inr reply
      \<and> (\<forall>n. open_output w (length (opens s') + j) (output_dir example_config @ ''/''
            @ derive_filename (urlparse w (?us ! j)) (strftime_now w n)) = None)"
    by (simp add: w_def zero' example_get example_generate example_open All_less_Suc)
  have f: "http_get w (length (requests s) + length ?us) ?c 30
        = Inr \<lparr>status = 200, text_result = Inr ?c\<rparr>"
      "status \<lparr>status = 200, text_result = Inr ?c\<rparr> = 200"
      "text_result \<lparr>status = 200, text_result = Inr ?c\<rparr> = Inr ?c" "?c \<noteq> []"
      "generate_content w (length (prompts s) + length ?us) (prompt_for w ?c ?c)
        = Inl (Exception ''Gemini API error: quota exceeded'')"
    by (simp_all add: w_def zero example_get example_generate)
  have f': "http_get w (length (requests s') + length ?us) ?a 30
        = Inr \<lparr>status = 200, text_result = Inr ?a\<rparr>"
      "status \<lparr>status = 200, text_result = Inr ?a\<rparr> = 200"
      "text_result \<lparr>status = 200, text_result = Inr ?a\<rparr> = Inr ?a" "?a \<noteq> []"
      "generate_content w (length (prompts s') + length ?us) (prompt_for w ?a ?a)
        = Inl (Exception ''Gemini API error: quota exceeded'')"
    by (simp_all add: w_def zero' example_get example_generate)
  have d: "(\<forall>x\<in>set ?us. strip_char CHR ''/'' (path (urlparse w x)) \<noteq> [])
      \<and> distinct (map (\<lambda>x. derive_filename (urlparse w x) []) ?us)"
    using example_paths by (simp add: w_def example_urlparse_world)
  have dd: "distinct (?us @ ?c # ?vs)" by simp
  have m: "?a \<in> set ?us" by simp
  note t = run_aborts_at_enrichment_failure [OF backlog fresh ok f example_gemini_message]
  note t' = run_aborts_at_enrichment_failure [OF backlog' fresh' ok' f' example_gemini_message]
  from t have "length (processed_file (run example_config w s)) = length ?us" by blast
  then have 1: "length (processed_file (run example_config w s)) = 2" by simp
  from t d have "card (dom (documents (run example_config w s))) = length ?us" by blast
  then have 2: "card (dom (documents (run example_config w s))) = 2" by simp
  have 3: "read_urls_from_file (run example_config w s) = [?c, ''https://example.com/d'']"
    using t dd by blast
  have 4: "requests (run example_config w s)
      = [(?a, 30), (''https://example.com/b'', 30), (?c, 30)]"
  proof -
    from t have "requests (run example_config w s) = requests s @ map (\<lambda>x. (x, 30)) (?us @ [?c])"
      by blast
    with zero show ?thesis by simp
  qed
  have 5: "map (\<lambda>(t, x, p). x) (processed_file (run example_config w s')) = ?us"
    using t' by blast
  have 6: "requests (run example_config w s')
      = [(?a, 30), (''https://example.com/b'', 30), (?a, 30)]"
  proof -
    from t' have "requests (run example_config w s') = requests s' @ map (\<lambda>x. (x, 30)) (?us @ [?a])"
      by blast
    with zero' show ?thesis by simp
  qed
  have 7: "read_urls_from_file (run example_config w s') = [''https://example.com/d'']"
  proof -
    from t' m have "read_urls_from_file (run example_config w s') = filter (\<lambda>x. x \<notin> set ?us) ?vs"
      by blast
    then show ?thesis by simp
  qed
  show ?thesis
    apply (intro conjI)
          apply (rule 1 [unfolded s_def w_def])
         apply (rule 2 [unfolded s_def w_def])
        apply (rule 3 [unfolded s_def w_def])
       apply (rule 4 [unfolded s_def w_def])
      apply (rule 5 [unfolded s'_def w_def])
     apply (rule 6 [unfolded s'_def w_def])
    apply (rule 7 [unfolded s'_def w_def])
    done
qed
section \<open>The derived file name\<close>

text \<open>
  C3, as stated, fails. For the host \<^verbatim>\<open>docs.www.example.com\<close> and the path \<^verbatim>\<open>/guide/\<close> the
  program derives \<^verbatim>\<open>docs.example.com_guide.md\<close>: \<^verbatim>\<open>www.\<close> is removed wherever it stands, and
  the slashes at both ends of the path are dropped before the others are replaced. For the
  path \<^verbatim>\<open>/\<close>, which is not empty, the program takes the timestamp. The file names
  worded by the specification are different in both cases.
\<close>

theorem spec_filename_counterexample:
  "derive_filename \<lparr>netloc = ''docs.www.example.com'', path = ''/guide/'', query = []\<rparr> ''20260101_000000''
     = ''docs.example.com_guide.md''
   \<and> spec_filename \<lparr>netloc = ''docs.www.example.com'', path = ''/guide/'', query = []\<rparr> ''20260101_000000''
     = ''docs.www.example.com__guide_.md''
   \<and> path \<lparr>netloc = ''example.com'', path = ''/'', query = []\<rparr> \<noteq> []
   \<and> derive_filename \<lparr>netloc = ''example.com'', path = ''/'', query = []\<rparr> ''20260101_000000''
     = ''example.com_20260101_000000.md''
   \<and> spec_filename \<lparr>netloc = ''example.com'', path = ''/'', query = []\<rparr> ''20260101_000000''
     = ''example.com__.md''"
  by code_simp

text \<open>
  C3, amended. For every parsed URL the derived file name is: the domain with every
  occurrence of \<^verbatim>\<open>www.\<close> removed, an underscore, then the first 100 characters of the URL path
  taken without its leading and trailing slashes and with its other slashes replaced by
  underscores, then \<^verbatim>\<open>.md\<close>, when that stripped path is not empty; when it is empty (the path
  is empty or made of slashes only) the current timestamp stands in place of the path. In
  both cases every character outside the safe set is then replaced by an underscore, the
  others are kept in place, and so the file name holds safe characters only. The safe set
  is the class \<^verbatim>\<open>[\w\-_\.]\<close> of the program: the hyphen, the underscore, the dot and every
  character that Unicode takes for a letter or a number, so a letter beyond ASCII such as
  \<^verbatim>\<open>U+00E9\<close> (e with acute accent) is kept, not replaced. On the strings of the model, which
  range over the code points up to U+00FF, these are the ASCII letters and digits, the three
  marks, and the letters and numbers of the Latin-1 supplement; a safe character of the
  ASCII range is an ASCII letter, a digit or one of the three marks.
\<close>

theorem derive_filename_formula:
  "derive_filename parsed timestamp =
     sanitize (replace_sub ''www.'' [] (netloc parsed) @ ''_''
       @ (if strip_char CHR ''/'' (path parsed) \<noteq> []
          then take 100 (map (\<lambda>c. if c = CHR ''/'' then CHR ''_'' else c)
                          (strip_char CHR ''/'' (path parsed)))
          else timestamp)
       @ ''.md'')
   \<and> (\<exists>a b. path parsed = replicate a CHR ''/'' @ strip_char CHR ''/'' (path parsed)
                              @ replicate b CHR ''/'')
   \<and> (strip_char CHR ''/'' (path parsed) \<noteq> [] \<longrightarrow>
        hd (strip_char CHR ''/'' (path parsed)) \<noteq> CHR ''/''
        \<and> last (strip_char CHR ''/'' (path parsed)) \<noteq> CHR ''/'')
   \<and> (strip_char CHR ''/'' (path parsed) = [] \<longleftrightarrow> set (path parsed) \<subseteq> {CHR ''/''})
   \<and> length (sanitize f) = length f
   \<and> (\<forall>i<length f. sanitize f ! i = (if safe_char (f ! i) then f ! i else CHR ''_''))
   \<and> (\<forall>c\<in>set (derive_filename parsed timestamp). safe_char c)
   \<and> (safe_char c \<longleftrightarrow>
        c \<in> set (''abcdefghijklmnopqrstuvwxyz'' @ ''ABCDEFGHIJKLMNOPQRSTUVWXYZ'' @ ''0123456789''
                 @ ''-_.'')
        \<or> latin1_word_char c)
   \<and> (latin1_word_char c \<longrightarrow> (128 :: nat) \<le> of_char c)"
proof -
  have s: "safe_char c \<longleftrightarrow>
        c \<in> set (''abcdefghijklmnopqrstuvwxyz'' @ ''ABCDEFGHIJKLMNOPQRSTUVWXYZ'' @ ''0123456789''
                 @ ''-_.'')
        \<or> latin1_word_char c"
    unfolding safe_char_def is_word_char_def by auto
  have l: "latin1_word_char c \<longrightarrow> (128 :: nat) \<le> of_char c"
    unfolding latin1_word_char_def by auto
  show ?thesis
    using strip_char_decompose [of "path parsed" "CHR ''/''"]
      strip_char_ends [of "CHR ''/''" "path parsed"]
      strip_char_empty_iff [of "CHR ''/''" "path parsed"]
      sanitize_nth [of f] sanitize_safe [of "replace_sub ''www.'' [] (netloc parsed) @ ''_''
         @ (if strip_char CHR ''/'' (path parsed) \<noteq> []
            then take 100 (map (\<lambda>c. if c = CHR ''/'' then CHR ''_'' else c)
                            (strip_char CHR ''/'' (path parsed)))
            else timestamp)
         @ ''.md''"] s l
    unfolding derive_filename_unfold [of parsed timestamp]
    by blast
qed

theorem derive_filename_formula_witness:
  "derive_filename (example_urlparse ''https://www.example.com/docs/a b/?x=1'') ''20260101_000000''
     = ''example.com_docs_a_b.md''
   \<and> derive_filename (example_urlparse ''https://www.example.com/?x=1'') ''20260101_000000''
     = ''example.com_20260101_000000.md''
   \<and> derive_filename \<lparr>netloc = ''example.com'', path = ''/caf'' @ [CHR 0xE9], query = []\<rparr>
       ''20260101_000000''
     = ''example.com_caf'' @ [CHR 0xE9] @ ''.md''
   \<and> derive_filename \<lparr>netloc = ''example.com'', path = ''/3'' @ [CHR 0xD7] @ ''4'', query = []\<rparr>
       ''20260101_000000''
     = ''example.com_3_4.md''
   \<and> safe_char CHR 0xE9 \<and> \<not> safe_char CHR 0xD7 \<and> \<not> safe_char CHR '' ''"
proof -
  let ?cafe = "\<lparr>netloc = ''example.com'', path = ''/caf'' @ [CHR 0xE9], query = []\<rparr>"
  let ?times = "\<lparr>netloc = ''example.com'', path = ''/3'' @ [CHR 0xD7] @ ''4'', query = []\<rparr>"
  have 1: "sanitize (replace_sub ''www.'' []
               (netloc (example_urlparse ''https://www.example.com/docs/a b/?x=1'')) @ ''_''
       @ (if strip_char CHR ''/'' (path (example_urlparse ''https://www.example.com/docs/a b/?x=1'')) \<noteq> []
          then take 100 (map (\<lambda>c. if c = CHR ''/'' then CHR ''_'' else c)
                 (strip_char CHR ''/'' (path (example_urlparse ''https://www.example.com/docs/a b/?x=1''))))
          else ''20260101_000000'')
       @ ''.md'') = ''example.com_docs_a_b.md''"
    by code_simp
  have 2: "sanitize (replace_sub ''www.'' []
               (netloc (example_urlparse ''https://www.example.com/?x=1'')) @ ''_''
       @ (if strip_char CHR ''/'' (path (example_urlparse ''https://www.example.com/?x=1'')) \<noteq> []
          then take 100 (map (\<lambda>c. if c = CHR ''/'' then CHR ''_'' else c)
                 (strip_char CHR ''/'' (path (example_urlparse ''https://www.example.com/?x=1''))))
          else ''20260101_000000'')
       @ ''.md'') = ''example.com_20260101_000000.md''"
    by code_simp
  have 3: "sanitize (replace_sub ''www.'' [] (netloc ?cafe) @ ''_''
       @ (if strip_char CHR ''/'' (path ?cafe) \<noteq> []
          then take 100 (map (\<lambda>c. if c = CHR ''/'' then CHR ''_'' else c)
                 (strip_char CHR ''/'' (path ?cafe)))
          else ''20260101_000000'')
       @ ''.md'') = ''example.com_caf'' @ [CHR 0xE9] @ ''.md''"
    by code_simp
  have 4: "sanitize (replace_sub ''www.'' [] (netloc ?times) @ ''_''
       @ (if strip_char CHR ''/'' (path ?times) \<noteq> []
          then take 100 (map (\<lambda>c. if c = CHR ''/'' then CHR ''_'' else c)
                 (strip_char CHR ''/'' (path ?times)))
          else ''20260101_000000'')
       @ ''.md'') = ''example.com_3_4.md''"
    by code_simp
  have 5: "latin1_word_char CHR 0xE9" "\<not> latin1_word_char CHR 0xD7"
      "\<not> latin1_word_char CHR '' ''"
    by code_simp+
  have d1: "derive_filename (example_urlparse ''https://www.example.com/docs/a b/?x=1'')
      ''20260101_000000'' = ''example.com_docs_a_b.md''"
    using derive_filename_formula [of "example_urlparse ''https://www.example.com/docs/a b/?x=1''"
        "''20260101_000000''" "[]" "CHR 0xE9"] 1 by simp
  have d2: "derive_filename (example_urlparse ''https://www.example.com/?x=1'') ''20260101_000000''
      = ''example.com_20260101_000000.md''"
    using derive_filename_formula [of "example_urlparse ''https://www.example.com/?x=1''"
        "''20260101_000000''" "[]" "CHR 0xE9"] 2 by simp
  have d3: "derive_filename ?cafe ''20260101_000000'' = ''example.com_caf'' @ [CHR 0xE9] @ ''.md''"
    using derive_filename_formula [of ?cafe "''20260101_000000''" "[]" "CHR 0xE9"] 3 by simp
  have d4: "derive_filename ?times ''20260101_000000'' = ''example.com_3_4.md''"
    using derive_filename_formula [of ?times "''20260101_000000''" "[]" "CHR 0xE9"] 4 by simp
  have s1: "safe_char CHR 0xE9"
    using derive_filename_formula [of ?cafe "''20260101_000000''" "[]" "CHR 0xE9"] 5 by blast
  have s2: "\<not> safe_char CHR 0xD7"
    using derive_filename_formula [of ?cafe "''20260101_000000''" "[]" "CHR 0xD7"] 5 by simp
  have s3: "\<not> safe_char CHR '' ''"
    using derive_filename_formula [of ?cafe "''20260101_000000''" "[]" "CHR '' ''"] 5 by simp
  show ?thesis
    using d1 d2 d3 d4 s1 s2 s3 by (intro conjI)
qed
section \<open>List fields of the reply\<close>

text \<open>
  C4. For every metadata block of a reply and every list-valued field (\<open>technologies\<close>,
  \<open>programming_languages\<close>, \<open>tags\<close>, \<open>key_concepts\<close>) whose pattern matches with the
  bracketed value \<open>group1\<close>: when the stripped value is the token \<^verbatim>\<open>none\<close> in any case, the
  field is recorded as the empty list; when the stripped value is a comma-separated
  sequence of items, the field is recorded as the list of these items in their order, each
  stripped of surrounding white space (an item that is blank is left out).
\<close>

theorem list_field_parsing:
  assumes "key \<in> set list_keys"
    and "map_of patterns key = Some pat"
    and "re_search pat metadata_text = Some group1"
  shows "(lower (strip group1) = ''none'' \<longrightarrow>
            extract_fields metadata_text key = Some (List_Value []))
       \<and> (items \<noteq> [] \<and> (\<forall>i\<in>set items. CHR '','' \<notin> set i)
             \<and> strip group1 = join_with '','' items \<and> lower (strip group1) \<noteq> ''none'' \<longrightarrow>
            extract_fields metadata_text key =
              Some (List_Value (map strip (filter (\<lambda>i. strip i \<noteq> []) items))))"
proof (intro conjI impI)
  assume "lower (strip group1) = ''none''"
  then show "extract_fields metadata_text key = Some (List_Value [])"
    using list_key_field [OF assms] by simp
next
  assume h: "items \<noteq> [] \<and> (\<forall>i\<in>set items. CHR '','' \<notin> set i)
             \<and> strip group1 = join_with '','' items \<and> lower (strip group1) \<noteq> ''none''"
  then have "split_items (strip group1) = map strip (filter (\<lambda>i. strip i \<noteq> []) items)"
    using split_items_join [of items] by simp
  moreover have "strip group1 = [] \<Longrightarrow> map strip (filter (\<lambda>i. strip i \<noteq> []) items) = []"
  proof -
    assume e: "strip group1 = []"
    have "split_items [] = []" by (simp add: split_items_def strip_eval)
    with e h split_items_join [of items] show ?thesis by simp
  qed
  ultimately show "extract_fields metadata_text key =
              Some (List_Value (map strip (filter (\<lambda>i. strip i \<noteq> []) items)))"
    using list_key_field [OF assms] h by auto
qed

theorem list_field_parsing_witness:
  "extract_fields (''Technologies: [React, Node.js]'' @ [LF] @ ''Tags: [ None ]'') ''technologies''
     = Some (List_Value [''React'', ''Node.js''])
   \<and> extract_fields (''Technologies: [React, Node.js]'' @ [LF] @ ''Tags: [ None ]'') ''tags''
     = Some (List_Value [])"
proof -
  let ?t = "''Technologies: [React, Node.js]'' @ [LF] @ ''Tags: [ None ]''"
  have k1: "''technologies'' \<in> set list_keys" and k2: "''tags'' \<in> set list_keys"
    by (simp_all add: list_keys_def)
  have p1: "map_of patterns ''technologies'' = Some (match_list_field ''Technologies:'')"
    and p2: "map_of patterns ''tags'' = Some (match_list_field ''Tags:'')"
    by (simp_all add: patterns_def)
  have g1: "re_search (match_list_field ''Technologies:'') ?t = Some ''React, Node.js''"
    by code_simp
  have g2: "re_search (match_list_field ''Tags:'') ?t = Some '' None ''"
    by code_simp
  have s1: "strip ''React, Node.js'' = join_with '','' [''React'', '' Node.js'']"
    by code_simp
  have n1: "lower (strip ''React, Node.js'') \<noteq> ''none''" by code_simp
  have n2: "lower (strip '' None '') = ''none''" by code_simp
  have i1: "map strip (filter (\<lambda>i. strip i \<noteq> []) [''React'', '' Node.js'']) = [''React'', ''Node.js'']"
    by code_simp
  have c1: "[''React'', '' Node.js''] \<noteq> [] \<and> (\<forall>i\<in>set [''React'', '' Node.js'']. CHR '','' \<notin> set i)
      \<and> strip ''React, Node.js'' = join_with '','' [''React'', '' Node.js'']
      \<and> lower (strip ''React, Node.js'') \<noteq> ''none''"
    using s1 n1 by simp
  have "extract_fields ?t ''technologies''
          = Some (List_Value (map strip (filter (\<lambda>i. strip i \<noteq> []) [''React'', '' Node.js''])))"
    by (rule list_field_parsing [OF k1 p1 g1, THEN conjunct2, THEN mp, OF c1])
  moreover have "extract_fields ?t ''tags'' = Some (List_Value [])"
    by (rule list_field_parsing [OF k2 p2 g2, THEN conjunct1, THEN mp, OF n2])
  ultimately show ?thesis using i1 by simp
qed

section \<open>The lengths of the list fields\<close>

text \<open>
  C5, as stated, fails: the parser records every item of the bracketed value. A reply with
  eleven tags and nine key concepts is parsed into a \<open>tags\<close> list of eleven elements and a
  \<open>key_concepts\<close> list of nine. The limits of 10 and 8 stand in the prompt only.
\<close>

theorem tags_bound_counterexample:
  "metadata (parse_reply ''text''
      (''## Metadata'' @ [LF]
       @ ''Tags: [orm, database, dotnet, web-api, data-access, sql, csharp, dapper, efcore, linq, postgres]''
       @ [LF] @ ''Key_Concepts: [a, b, c, d, e, f, g, h, i]''
       @ [LF, LF] @ ''## Content'' @ [LF] @ ''text'')) ''tags''
     = Some (List_Value [''orm'', ''database'', ''dotnet'', ''web-api'', ''data-access'', ''sql'',
                         ''csharp'', ''dapper'', ''efcore'', ''linq'', ''postgres''])
   \<and> \<not> length [''orm'', ''database'', ''dotnet'', ''web-api'', ''data-access'', ''sql'',
                ''csharp'', ''dapper'', ''efcore'', ''linq'', ''postgres''] \<le> (10::nat)
   \<and> metadata (parse_reply ''text''
      (''## Metadata'' @ [LF]
       @ ''Tags: [orm, database, dotnet, web-api, data-access, sql, csharp, dapper, efcore, linq, postgres]''
       @ [LF] @ ''Key_Concepts: [a, b, c, d, e, f, g, h, i]''
       @ [LF, LF] @ ''## Content'' @ [LF] @ ''text'')) ''key_concepts''
     = Some (List_Value [''a'', ''b'', ''c'', ''d'', ''e'', ''f'', ''g'', ''h'', ''i''])
   \<and> \<not> length [''a'', ''b'', ''c'', ''d'', ''e'', ''f'', ''g'', ''h'', ''i''] \<le> (8::nat)"
proof -
  let ?t = "''Tags: [orm, database, dotnet, web-api, data-access, sql, csharp, dapper, efcore, linq, postgres]''
       @ [LF] @ ''Key_Concepts: [a, b, c, d, e, f, g, h, i]''"
  let ?reply = "''## Metadata'' @ [LF] @ ?t @ [LF, LF] @ ''## Content'' @ [LF] @ ''text''"
  have m: "metadata_match ?reply = Some ?t" by code_simp
  have g1: "re_search (match_list_field ''Tags:'') ?t
      = Some ''orm, database, dotnet, web-api, data-access, sql, csharp, dapper, efcore, linq, postgres''"
    by code_simp
  have g2: "re_search (match_list_field ''Key_Concepts:'') ?t = Some ''a, b, c, d, e, f, g, h, i''"
    by code_simp
  have f1: "field_of_group ''tags''
        ''orm, database, dotnet, web-api, data-access, sql, csharp, dapper, efcore, linq, postgres''
      = List_Value [''orm'', ''database'', ''dotnet'', ''web-api'', ''data-access'', ''sql'',
                         ''csharp'', ''dapper'', ''efcore'', ''linq'', ''postgres'']"
    by code_simp
  have f2: "field_of_group ''key_concepts'' ''a, b, c, d, e, f, g, h, i''
      = List_Value [''a'', ''b'', ''c'', ''d'', ''e'', ''f'', ''g'', ''h'', ''i'']"
    by code_simp
  have p1: "map_of patterns ''tags'' = Some (match_list_field ''Tags:'')"
    and p2: "map_of patterns ''key_concepts'' = Some (match_list_field ''Key_Concepts:'')"
    by (simp_all add: patterns_def)
  have "metadata (parse_reply ''text'' ?reply) ''tags''
      = Some (List_Value [''orm'', ''database'', ''dotnet'', ''web-api'', ''data-access'', ''sql'',
                         ''csharp'', ''dapper'', ''efcore'', ''linq'', ''postgres''])"
    by (simp only: parse_reply_metadata m p1 g1 f1 option.case option.map)
  moreover have "metadata (parse_reply ''text'' ?reply) ''key_concepts''
      = Some (List_Value [''a'', ''b'', ''c'', ''d'', ''e'', ''f'', ''g'', ''h'', ''i''])"
    by (simp only: parse_reply_metadata m p2 g2 f2 option.case option.map)
  ultimately show ?thesis by simp
qed

text \<open>
  C5, amended. For every reply, the \<open>tags\<close> field of the parsed result is present exactly when
  the reply has a metadata block in which the pattern of \<^verbatim>\<open>Tags:\<close> matches, and it is then the
  list of the stripped non-blank comma-separated items of the stripped bracketed value
  (the empty list when that value is empty or the token \<^verbatim>\<open>none\<close>), whatever their number; the
  same holds of \<open>key_concepts\<close>. No bound is enforced: for every \<open>n\<close> there is a reply whose
  \<open>tags\<close> list, and one whose \<open>key_concepts\<close> list, has exactly \<open>n\<close> elements.
\<close>

theorem list_fields_unbounded:
  "metadata (parse_reply c reply) ''tags'' =
     (case metadata_match reply of
        None \<Rightarrow> None
      | Some t \<Rightarrow>
          map_option
            (\<lambda>g. List_Value (if strip g \<noteq> [] \<and> lower (strip g) \<noteq> ''none''
                              then split_items (strip g) else []))
            (re_search (match_list_field ''Tags:'') t))
   \<and> metadata (parse_reply c reply) ''key_concepts'' =
     (case metadata_match reply of
        None \<Rightarrow> None
      | Some t \<Rightarrow>
          map_option
            (\<lambda>g. List_Value (if strip g \<noteq> [] \<and> lower (strip g) \<noteq> ''none''
                              then split_items (strip g) else []))
            (re_search (match_list_field ''Key_Concepts:'') t))
   \<and> metadata (parse_reply c (reply_with_items ''Tags:'' n)) ''tags''
       = Some (List_Value (replicate n ''a''))
   \<and> metadata (parse_reply c (reply_with_items ''Key_Concepts:'' n)) ''key_concepts''
       = Some (List_Value (replicate n ''a''))"
proof -
  have p1: "map_of patterns ''tags'' = Some (match_list_field ''Tags:'')"
    and p2: "map_of patterns ''key_concepts'' = Some (match_list_field ''Key_Concepts:'')"
    by (simp_all add: patterns_def)
  have k1: "''tags'' \<in> set list_keys" and k2: "''key_concepts'' \<in> set list_keys"
    by (simp_all add: list_keys_def)
  show ?thesis
    using list_field_of_reply [OF k1 p1, of c reply] list_field_of_reply [OF k2 p2, of c reply]
      items_any_length [OF k1 p1, of c n] items_any_length [OF k2 p2, of c n]
    by simp
qed

theorem list_fields_unbounded_witness:
  "metadata (parse_reply ''text'' (reply_with_items ''Tags:'' 12)) ''tags''
     = Some (List_Value (replicate 12 ''a''))
   \<and> length (replicate 12 ''a'') = (12::nat)
   \<and> metadata (parse_reply ''text'' example_reply) ''key_concepts'' = None
   \<and> metadata (parse_reply ''text'' example_reply) ''tags'' = Some (List_Value [])"
proof -
  have m: "metadata_match example_reply
      = Some (''Technologies: [React, Node.js]'' @ [LF] @ ''Tags: [none]'')"
    by code_simp
  have g1: "re_search (match_list_field ''Tags:'')
      (''Technologies: [React, Node.js]'' @ [LF] @ ''Tags: [none]'') = Some ''none''"
    by code_simp
  have g2: "re_search (match_list_field ''Key_Concepts:'')
      (''Technologies: [React, Node.js]'' @ [LF] @ ''Tags: [none]'') = None"
    by code_simp
  have l: "lower (strip ''none'') = ''none''" by code_simp
  show ?thesis
    using list_fields_unbounded [of "''text''" example_reply 12] m g1 g2 l
    by simp
qed

section \<open>Fetching\<close>

text \<open>
  C6. For every URL and every behaviour of the network, \<open>fetch_url_content\<close> issues exactly
  one GET, with the timeout of 30 seconds (the state after the call is the state before
  with this one request added); it returns \<open>None\<close> when this request raises, when the status
  is not 200 and when reading the text of the response raises, and the text when the status
  is 200; its result is a value in every case, never an exception; and the configured
  \<open>max_retries\<close> has no effect on it. The outcome of the request is that of call number
  \<open>length (requests s)\<close> of the run: no second request is made, whatever the first gave.
\<close>

theorem fetch_url_content_soft_failure:
  "requests (snd (fetch_url_content self world s url)) = requests s @ [(url, 30)]
   \<and> (snd (fetch_url_content self world s url)) = s\<lparr>requests := requests s @ [(url, 30)]\<rparr>
   \<and> (\<forall>e. http_get world (length (requests s)) url 30 = Inl e \<longrightarrow> fst (fetch_url_content self world s url) = None)
   \<and> (\<forall>response. http_get world (length (requests s)) url 30 = Inr response \<and> status response \<noteq> 200
         \<longrightarrow> fst (fetch_url_content self world s url) = None)
   \<and> (\<forall>response e. http_get world (length (requests s)) url 30 = Inr response \<and> text_result response = Inl e
         \<longrightarrow> fst (fetch_url_content self world s url) = None)
   \<and> (\<forall>response t. http_get world (length (requests s)) url 30 = Inr response \<and> status response = 200
           \<and> text_result response = Inr t
         \<longrightarrow> fst (fetch_url_content self world s url) = Some t)
   \<and> fetch_url_content (self\<lparr>max_retries := n\<rparr>) world s url = fetch_url_content self world s url"
  by (auto simp: fetch_url_content_def Let_def split: sum.splits)

theorem fetch_url_content_soft_failure_witness:
  "fetch_url_content example_config (example_world [] [] False) (start_state [])
       ''https://example.com/refused''
     = (None, (start_state [])\<lparr>requests := [(''https://example.com/refused'', 30)]\<rparr>)
   \<and> fst (fetch_url_content example_config (example_world [] [] False) (start_state [])
       ''https://example.com/missing'') = None
   \<and> fst (fetch_url_content example_config (example_world [] [] False) (start_state [])
       ''https://example.com/a'') = Some ''https://example.com/a''
   \<and> fetch_url_content (example_config\<lparr>max_retries := 0\<rparr>) (example_world [] [] False) (start_state [])
       ''https://example.com/refused''
     = fetch_url_content example_config (example_world [] [] False) (start_state [])
       ''https://example.com/refused''"
proof -
  let ?w = "example_world [] [] False"
  have g1: "http_get ?w (length (requests (start_state []))) ''https://example.com/refused'' 30 = Inl (Exception ''Connection refused'')"
    by (simp add: example_world_def)
  have g2: "http_get ?w (length (requests (start_state []))) ''https://example.com/missing'' 30
      = Inr \<lparr>status = 404, text_result = Inr ''Not Found''\<rparr>"
    by (simp add: example_world_def)
  have g3: "http_get ?w (length (requests (start_state []))) ''https://example.com/a'' 30
      = Inr \<lparr>status = 200, text_result = Inr ''https://example.com/a''\<rparr>"
    by (simp add: example_world_def)
  note t1 = fetch_url_content_soft_failure [of example_config ?w "start_state []"
      "''https://example.com/refused''" 0]
  note t2 = fetch_url_content_soft_failure [of example_config ?w "start_state []"
      "''https://example.com/missing''" 0]
  note t3 = fetch_url_content_soft_failure [of example_config ?w "start_state []"
      "''https://example.com/a''" 0]
  have r: "requests (start_state []) = []" by (simp add: start_state_def)
  have 1: "fst (fetch_url_content example_config ?w (start_state []) ''https://example.com/refused'') = None"
    using t1 g1 by blast
  have sn: "snd (fetch_url_content example_config ?w (start_state []) ''https://example.com/refused'')
      = (start_state [])\<lparr>requests := [(''https://example.com/refused'', 30)]\<rparr>"
    using t1 r by simp
  have 2: "fst (fetch_url_content example_config ?w (start_state []) ''https://example.com/missing'') = None"
    using t2 g2 by simp
  have 3: "fst (fetch_url_content example_config ?w (start_state []) ''https://example.com/a'')
      = Some ''https://example.com/a''"
    using t3 g3 by simp
  have 4: "fetch_url_content (example_config\<lparr>max_retries := 0\<rparr>) ?w (start_state [])
       ''https://example.com/refused''
     = fetch_url_content example_config ?w (start_state []) ''https://example.com/refused''"
    using t1 by blast
  from 1 sn have "fetch_url_content example_config ?w (start_state []) ''https://example.com/refused''
     = (None, (start_state [])\<lparr>requests := [(''https://example.com/refused'', 30)]\<rparr>)"
    by (simp add: prod_eq_iff)
  with 2 3 4 show ?thesis by simp
qed

section \<open>Determinism and collisions of the file name\<close>




section \<open>The author of a page\<close>

text \<open>
  C8, as stated, fails. On a page whose first author candidate is a meta tag named
  \<^verbatim>\<open>author\<close> with an empty content, followed by a meta tag with the property
  \<^verbatim>\<open>article:author\<close> and the content \<^verbatim>\<open>Bob\<close>, the program returns \<^verbatim>\<open>Unknown\<close>: the second
  meta tag is looked for only when the first is absent. The first match of the four, in
  the order of the claim, gives the empty text when a match is a tag that is present, and
  \<^verbatim>\<open>Bob\<close> when a match is a tag with a value.
\<close>

theorem first_match_author_counterexample:
  "author (extract_metadata_from_html ((example_world [] [] False)\<lparr>parse_html := \<lambda>h. empty_author_soup\<rparr>)
       ''page'' ''https://example.com/post'') = ''Unknown''
   \<and> spec_author empty_author_soup = []
   \<and> spec_author_nonempty empty_author_soup = ''Bob''"
proof -
  have "or_default (extract_author empty_author_soup) ''Unknown'' = ''Unknown''"
    by code_simp
  moreover have "spec_author empty_author_soup = []" by code_simp
  moreover have "spec_author_nonempty empty_author_soup = ''Bob''" by code_simp
  ultimately show ?thesis by (simp add: author_of_page)
qed

text \<open>
  C8, amended. For every parsed page, with the two meta tags (named \<^verbatim>\<open>author\<close>; property
  \<^verbatim>\<open>article:author\<close>) and the two elements (class holding \<^verbatim>\<open>author\<close> in any case; itemprop
  \<^verbatim>\<open>author\<close>) each looked up as the first tag in document order: the author is the content
  of the first meta tag when it is present and its content is not empty; the content of
  the second meta tag when the first is absent and that content is not empty; otherwise
  (no meta tag, or an empty content of the one that was taken) the stripped text of the
  first element when it is present and its text is not empty, or of the second element
  when the first is absent and that text is not empty; and \<^verbatim>\<open>Unknown\<close> in every other case. The
  second candidate of a pair is consulted only when the first is absent. Given the parsed
  page the extraction is a total function, and the author it returns is never empty.
\<close>

theorem author_extraction:
  fixes world html_content url
  defines "soup \<equiv> parse_html world html_content"
  defines "page \<equiv> extract_metadata_from_html world html_content url"
  defines "meta1 \<equiv> find_tag (named_with_attr ''meta'' ''name'' ''author'') soup"
  defines "meta2 \<equiv> find_tag (named_with_attr ''meta'' ''property'' ''article:author'') soup"
  defines "elem1 \<equiv> find_tag class_matches_author soup"
  defines "elem2 \<equiv> find_tag (with_attr ''itemprop'' ''author'') soup"
  shows "(\<forall>m. meta1 = Some m \<and> get_attr m ''content'' \<noteq> [] \<longrightarrow> author page = get_attr m ''content'')
   \<and> (\<forall>m. meta1 = None \<and> meta2 = Some m \<and> get_attr m ''content'' \<noteq> []
         \<longrightarrow> author page = get_attr m ''content'')
   \<and> (\<forall>e. (\<forall>m. or_else meta1 meta2 = Some m \<longrightarrow> get_attr m ''content'' = [])
          \<and> elem1 = Some e \<and> get_text_strip e \<noteq> [] \<longrightarrow> author page = get_text_strip e)
   \<and> (\<forall>e. (\<forall>m. or_else meta1 meta2 = Some m \<longrightarrow> get_attr m ''content'' = [])
          \<and> elem1 = None \<and> elem2 = Some e \<and> get_text_strip e \<noteq> []
         \<longrightarrow> author page = get_text_strip e)
   \<and> ((\<forall>m. or_else meta1 meta2 = Some m \<longrightarrow> get_attr m ''content'' = [])
        \<and> (\<forall>e. or_else elem1 elem2 = Some e \<longrightarrow> get_text_strip e = [])
         \<longrightarrow> author page = ''Unknown'')
   \<and> author page \<noteq> []"
  unfolding page_def meta1_def meta2_def elem1_def elem2_def soup_def author_of_page
  by (auto simp: extract_author_def or_default_def or_else_def truthy_def Let_def
        split: option.splits)

theorem author_extraction_witness:
  "author (extract_metadata_from_html ((example_world [] [] False)\<lparr>parse_html := \<lambda>h. article_soup\<rparr>)
       ''page'' ''https://example.com/post'') = ''Bob''
   \<and> author (extract_metadata_from_html
         ((example_world [] [] False)\<lparr>parse_html := \<lambda>h. [Tag ''body'' []
             [Tag ''span'' [(''itemprop'', ''author'')] [NavigableString '' Carol '']]]\<rparr>)
       ''page'' ''https://example.com/post'') = ''Carol''
   \<and> author (extract_metadata_from_html (example_world [] [] False)
       ''page'' ''https://example.com/post'') = ''Unknown''"
proof -
  let ?w1 = "(example_world [] [] False)\<lparr>parse_html := \<lambda>h. article_soup\<rparr>"
  let ?soup2 = "[Tag ''body'' [] [Tag ''span'' [(''itemprop'', ''author'')] [NavigableString '' Carol '']]]"
  let ?w2 = "(example_world [] [] False)\<lparr>parse_html := \<lambda>h. ?soup2\<rparr>"
  let ?w3 = "example_world [] [] False"
  let ?soup3 = "[Tag ''body'' [] [NavigableString ''page'']]"
  let ?m = "Tag ''meta'' [(''property'', ''article:author''), (''content'', ''Bob'')] []"
  let ?e = "Tag ''span'' [(''itemprop'', ''author'')] [NavigableString '' Carol '']"
  have p1: "parse_html ?w1 ''page'' = article_soup" by (simp add: example_world_def)
  have p2: "parse_html ?w2 ''page'' = ?soup2" by (simp add: example_world_def)
  have p3: "parse_html ?w3 ''page'' = ?soup3" by (simp add: example_world_def)
  have a1: "find_tag (named_with_attr ''meta'' ''name'' ''author'') article_soup = None"
    and a2: "find_tag (named_with_attr ''meta'' ''property'' ''article:author'') article_soup = Some ?m"
    and a3: "get_attr ?m ''content'' = ''Bob''"
    by code_simp+
  have b1: "find_tag (named_with_attr ''meta'' ''name'' ''author'') ?soup2 = None"
    and b2: "find_tag (named_with_attr ''meta'' ''property'' ''article:author'') ?soup2 = None"
    and b3: "find_tag class_matches_author ?soup2 = None"
    and b4: "find_tag (with_attr ''itemprop'' ''author'') ?soup2 = Some ?e"
    and b5: "get_text_strip ?e = ''Carol''"
    by code_simp+
  have c1: "find_tag (named_with_attr ''meta'' ''name'' ''author'') ?soup3 = None"
    and c2: "find_tag (named_with_attr ''meta'' ''property'' ''article:author'') ?soup3 = None"
    and c3: "find_tag class_matches_author ?soup3 = None"
    and c4: "find_tag (with_attr ''itemprop'' ''author'') ?soup3 = None"
    by code_simp+
  have 1: "author (extract_metadata_from_html ?w1 ''page'' ''https://example.com/post'') = ''Bob''"
    using author_extraction [of ?w1 "''page''" "''https://example.com/post''"]
    unfolding p1 a1 a2 using a3 by simp
  have 2: "author (extract_metadata_from_html ?w2 ''page'' ''https://example.com/post'') = ''Carol''"
    using author_extraction [of ?w2 "''page''" "''https://example.com/post''"]
    unfolding p2 b1 b2 b3 b4 using b5 by (simp add: or_else_def)
  have 3: "author (extract_metadata_from_html ?w3 ''page'' ''https://example.com/post'') = ''Unknown''"
    using author_extraction [of ?w3 "''page''" "''https://example.com/post''"]
    unfolding p3 c1 c2 c3 c4 by (simp add: or_else_def)
  from 1 2 3 show ?thesis by simp
qed

section \<open>Fields and content that the reply lacks\<close>

text \<open>
  C9. For every reply text: a field whose pattern matches nowhere in the metadata block
  (or whose reply has no metadata block at all) is absent from the parsed dictionary, and so
  is every key that is not one of the seven fields; when the content block is absent the
  content of the result is the converted text that was sent; and whenever the service
  returns a reply text to the call, \<open>process_with_gemini\<close> returns the parsed result: parsing
  is a total function of the reply and raises nothing.
\<close>

theorem parse_reply_absent_fields:
  "(map_of patterns key = Some pat
      \<and> (\<forall>t. metadata_match reply = Some t \<longrightarrow> re_search pat t = None)
      \<longrightarrow> metadata (parse_reply c reply) key = None)
   \<and> (map_of patterns key = None \<longrightarrow> metadata (parse_reply c reply) key = None)
   \<and> (content_match reply = None \<longrightarrow> improved_content (parse_reply c reply) = c)
   \<and> (generate_content world (length (prompts s)) (prompt_of url c) = Inr reply
      \<longrightarrow> process_with_gemini world s c page url
            = (Inr (parse_reply c reply), s\<lparr>prompts := prompts s @ [prompt_of url c]\<rparr>))"
  by (auto simp: extract_fields_lookup parse_reply_def process_with_gemini_def Let_def
        split: option.splits)

theorem parse_reply_absent_fields_witness:
  "metadata (parse_reply ''text'' example_reply) ''code_examples'' = None
   \<and> metadata (parse_reply ''text'' example_reply) ''author'' = None
   \<and> improved_content (parse_reply ''text'' (''## Metadata'' @ [LF] @ ''Tags: [x]'')) = ''text''
   \<and> fst (process_with_gemini (example_world [1] ''boom'' False) (start_state []) ''text''
        \<lparr>title = ''T'', author = ''A'', publication_date = None, domain = ''example.com'',
         content = None\<rparr> ''https://example.com/b'')
      = Inr (parse_reply ''text'' example_reply)"
proof -
  let ?pat = "match_choice_field ''Code_Examples:'' [''yes'', ''no'']"
  let ?page = "\<lparr>title = ''T'', author = ''A'', publication_date = None, domain = ''example.com'',
         content = None\<rparr>"
  have p: "map_of patterns ''code_examples'' = Some ?pat"
    and q: "map_of patterns ''author'' = None"
    by (simp_all add: patterns_def)
  have m: "metadata_match example_reply
      = Some (''Technologies: [React, Node.js]'' @ [LF] @ ''Tags: [none]'')"
    by code_simp
  have g: "re_search ?pat (''Technologies: [React, Node.js]'' @ [LF] @ ''Tags: [none]'') = None"
    by code_simp
  have c: "content_match (''## Metadata'' @ [LF] @ ''Tags: [x]'') = None"
    by code_simp
  have w: "generate_content (example_world [1] ''boom'' False) (length (prompts (start_state [])))
             (prompt_of ''https://example.com/b'' ''text'') = Inr example_reply"
    by (simp add: example_world_def start_state_def)
  have 1: "metadata (parse_reply ''text'' example_reply) ''code_examples'' = None"
    using parse_reply_absent_fields [of "''code_examples''" ?pat example_reply "''text''"] p m g
    by simp
  have 2: "metadata (parse_reply ''text'' example_reply) ''author'' = None"
    using parse_reply_absent_fields [of "''author''" ?pat example_reply "''text''"] q
    by simp
  have 3: "improved_content (parse_reply ''text'' (''## Metadata'' @ [LF] @ ''Tags: [x]'')) = ''text''"
    using parse_reply_absent_fields [of "''author''" ?pat "''## Metadata'' @ [LF] @ ''Tags: [x]''" "''text''"] c
    by simp
  have 4: "fst (process_with_gemini (example_world [1] ''boom'' False) (start_state []) ''text''
        ?page ''https://example.com/b'') = Inr (parse_reply ''text'' example_reply)"
    using parse_reply_absent_fields [of "''author''" ?pat example_reply "''text''"
        "example_world [1] ''boom'' False" "start_state []" "''https://example.com/b''" ?page] w
    by simp
  from 1 2 3 4 show ?thesis by simp
qed

section \<open>Removing a processed URL\<close>

text \<open>
  C10. For every content of the backlog file (also a missing file) and every URL, removing
  a processed URL rewrites the file to the entries read from it (the stripped non-blank
  lines, as \<open>read_urls_from_file\<close> gives them) that are not equal to the URL, one per line:
  every occurrence of the URL goes in the one rewrite, and the remaining entries keep
  their relative order, so reading the file back gives exactly that filtered list.
\<close>

theorem remove_processed_url_filters:
  "source_file (remove_processed_url s url) =
     Some (write_urls (filter (\<lambda>u. u \<noteq> url) (read_urls_from_file s)))
   \<and> read_urls_from_file (remove_processed_url s url) =
     filter (\<lambda>u. u \<noteq> url) (read_urls_from_file s)"
proof -
  have "\<forall>u\<in>set (filter (\<lambda>u. u \<noteq> url) (read_urls_from_file s)). url_entry u"
    using read_urls_entries by auto
  then show ?thesis
    by (simp add: remove_processed_url_def read_written_urls)
qed

theorem remove_processed_url_filters_witness:
  "read_urls_from_file
     \<lparr>source_file = Some ('' a '' @ [CR, LF, LF] @ ''b'' @ [LF] @ ''a''), processed_file = [],
      documents = Map.empty, now_calls = 0, requests = [], prompts = [], opens = []\<rparr>
     = [''a'', ''b'', ''a'']
   \<and> source_file (remove_processed_url
        \<lparr>source_file = Some ('' a '' @ [CR, LF, LF] @ ''b'' @ [LF] @ ''a''), processed_file = [],
         documents = Map.empty, now_calls = 0, requests = [], prompts = [], opens = []\<rparr> ''a'')
     = Some (''b'' @ [LF])
   \<and> read_urls_from_file (remove_processed_url
        \<lparr>source_file = Some ('' a '' @ [CR, LF, LF] @ ''b'' @ [LF] @ ''a''), processed_file = [],
         documents = Map.empty, now_calls = 0, requests = [], prompts = [], opens = []\<rparr> ''a'')
     = [''b'']"
proof -
  let ?s = "\<lparr>source_file = Some ('' a '' @ [CR, LF, LF] @ ''b'' @ [LF] @ ''a''), processed_file = [],
             documents = Map.empty, now_calls = 0, requests = [], prompts = [], opens = []\<rparr>"
  have r: "read_urls_from_file ?s = [''a'', ''b'', ''a'']"
    by (simp add: read_urls_from_file_def file_lines_def strip_eval)
  show ?thesis
    using remove_processed_url_filters [of ?s "''a''"] r
    by (simp add: write_urls_def)
qed

end
